theory Spec2Isabelle
  imports
    Complex_Main
    "HOL-Library.Char_ord"
    "HOL-Library.List_Lexorder"
    "HOL-Library.Sublist"
    "HOL-Library.Multiset"
    "HOL-Library.AList"
    "HOL-Library.Log_Nat"
begin

section \<open>Personal Library Manager: the data-access layer of main.py\<close>

text \<open>
  The program keeps one SQLite table
  \<^verbatim>\<open>books(id INTEGER PRIMARY KEY AUTOINCREMENT, title TEXT, author TEXT, year INTEGER,
  genre TEXT, read BOOLEAN)\<close>
  and reaches it only through \<^verbatim>\<open>execute_query\<close>. The Python functions are embedded as
  state-passing functions on the stored table; the handful of SQL statements they issue are
  embedded as functions of the stored state, following the SQLite documentation.

  Text is a list of characters. A character stands for one code point; the characters of
  Isabelle's \<^typ>\<open>char\<close> cover U+0000 to U+00FF. SQLite compares text by the bytes of its
  UTF-8 encoding, which orders strings as the lexicographic order of their code points does.
  Integers are the values of SQLite's INTEGER type, taken without their 64-bit bound.
\<close>

subsection \<open>The stored table\<close>

text \<open>
  A stored row is the tuple \<^verbatim>\<open>(id, title, author, year, genre, read)\<close>; the Python
  booleans bound to \<^verbatim>\<open>read\<close> are stored as the integers 1 and 0.
\<close>

type_synonym row = "int \<times> string \<times> string \<times> int \<times> string \<times> int"

definition row_id :: "row \<Rightarrow> int" where
  "row_id r = (case r of (i, t, a, y, g, rd) \<Rightarrow> i)"

definition row_title :: "row \<Rightarrow> string" where
  "row_title r = (case r of (i, t, a, y, g, rd) \<Rightarrow> t)"

definition row_author :: "row \<Rightarrow> string" where
  "row_author r = (case r of (i, t, a, y, g, rd) \<Rightarrow> a)"

definition row_year :: "row \<Rightarrow> int" where
  "row_year r = (case r of (i, t, a, y, g, rd) \<Rightarrow> y)"

definition row_genre :: "row \<Rightarrow> string" where
  "row_genre r = (case r of (i, t, a, y, g, rd) \<Rightarrow> g)"

definition row_read :: "row \<Rightarrow> int" where
  "row_read r = (case r of (i, t, a, y, g, rd) \<Rightarrow> rd)"

text \<open>
  The database file: the rows of \<^verbatim>\<open>books\<close> in rowid order, and the entry of the internal
  table \<^verbatim>\<open>sqlite_sequence\<close> that AUTOINCREMENT maintains (the largest rowid the table has
  ever held, 0 when it never held a row).
\<close>

record db =
  books :: "row list"
  seq :: int

text \<open>\<^verbatim>\<open>initialize_database\<close> on a fresh file: CREATE TABLE IF NOT EXISTS creates the empty table.\<close>

definition empty_db :: db where
  "empty_db = \<lparr>books = [], seq = 0\<rparr>"

subsection \<open>The SQL statements of the program\<close>

text \<open>
  A statement, run by \<^verbatim>\<open>cursor.execute\<close> on a fresh connection, maps the stored state to the
  state pending in the connection's open transaction, the rows the cursor will fetch, and the
  connection's last insert rowid (0 on a connection that has inserted nothing).
\<close>

type_synonym 'r statement = "db \<Rightarrow> db \<times> 'r list \<times> int"

text \<open>
  \<^verbatim>\<open>INSERT INTO books (title, author, year, genre, read) VALUES (?, ?, ?, ?, ?)\<close>.
  With AUTOINCREMENT the new rowid is one more than the largest rowid that ever existed in
  the table: the larger of the \<^verbatim>\<open>sqlite_sequence\<close> entry and the largest rowid present.
\<close>

definition next_rowid :: "db \<Rightarrow> int" where
  "next_rowid d = fold max (map row_id (books d)) (seq d) + 1"

definition sql_insert :: "string \<Rightarrow> string \<Rightarrow> int \<Rightarrow> string \<Rightarrow> bool \<Rightarrow> unit statement" where
  "sql_insert t a y g r d =
     (let i = next_rowid d
      in (d\<lparr>books := books d @ [(i, t, a, y, g, if r then 1 else 0)], seq := i\<rparr>, [], i))"

text \<open>\<^verbatim>\<open>DELETE FROM books WHERE id = ?\<close>\<close>

definition sql_delete :: "int \<Rightarrow> unit statement" where
  "sql_delete i d = (d\<lparr>books := filter (\<lambda>r. row_id r \<noteq> i) (books d)\<rparr>, [], 0)"

text \<open>
  \<^verbatim>\<open>SELECT id, title, author, year, genre, read FROM books ORDER BY title\<close>.
  ORDER BY sorts under the BINARY collation; the order of rows with equal keys is left open
  by SQL and is taken here as the order of the scan.
\<close>

definition sql_select_all :: "row statement" where
  "sql_select_all d = (d, sort_key row_title (books d), 0)"

text \<open>
  Case folding. Python's \<^verbatim>\<open>str.lower\<close> follows Unicode: besides A to Z it maps the
  upper-case letters U+00C0 to U+00DE (all but the multiplication sign U+00D7) to the letters
  32 code points above. SQLite's built-in \<^verbatim>\<open>LOWER\<close> and the comparison inside \<^verbatim>\<open>LIKE\<close>
  fold the ASCII letters A to Z only.
\<close>

definition py_lower_char :: "char \<Rightarrow> char" where
  "py_lower_char c =
     (let n = (of_char c :: nat)
      in if (65 \<le> n \<and> n \<le> 90) \<or> (192 \<le> n \<and> n \<le> 222 \<and> n \<noteq> 215) then char_of (n + 32) else c)"

definition py_lower :: "string \<Rightarrow> string" where
  "py_lower s = map py_lower_char s"

definition sql_lower_char :: "char \<Rightarrow> char" where
  "sql_lower_char c =
     (let n = (of_char c :: nat) in if 65 \<le> n \<and> n \<le> 90 then char_of (n + 32) else c)"

definition sql_lower :: "string \<Rightarrow> string" where
  "sql_lower s = map sql_lower_char s"

text \<open>
  \<^verbatim>\<open>X LIKE P\<close> without an ESCAPE clause. SQLite's matcher walks the pattern: a percent
  sign matches any run of characters (also the empty one), an underscore matches any single
  character, every other character matches itself up to the case of ASCII letters.
\<close>

fun pattern_compare :: "string \<Rightarrow> string \<Rightarrow> bool" where
  "pattern_compare [] s = (s = [])"
| "pattern_compare (p # ps) s =
     (if p = CHR ''%'' then
        pattern_compare ps s \<or> (case s of [] \<Rightarrow> False | c # cs \<Rightarrow> pattern_compare (p # ps) cs)
      else (case s of [] \<Rightarrow> False
            | c # cs \<Rightarrow> (p = CHR ''_'' \<or> sql_lower_char p = sql_lower_char c) \<and> pattern_compare ps cs))"

text \<open>
  The matcher reads the pattern and the text as C strings: each ends at its first NUL
  character, if it has one.
\<close>

definition c_str :: "string \<Rightarrow> string" where
  "c_str s = takeWhile (\<lambda>c. c \<noteq> CHR 0x00) s"

definition sql_like :: "string \<Rightarrow> string \<Rightarrow> bool" where
  "sql_like pat s = pattern_compare (c_str pat) (c_str s)"

text \<open>
  \<^verbatim>\<open>SELECT id, title, author, year, genre, read FROM books WHERE LOWER(col) LIKE ? ORDER BY col\<close>,
  for the column \<^verbatim>\<open>title\<close> or \<^verbatim>\<open>author\<close>.
\<close>

definition sql_select_like :: "(row \<Rightarrow> string) \<Rightarrow> string \<Rightarrow> row statement" where
  "sql_select_like col pat d =
     (d, sort_key col (filter (\<lambda>r. sql_like pat (sql_lower (col r))) (books d)), 0)"

text \<open>\<^verbatim>\<open>SELECT COUNT(*) FROM books\<close> and \<^verbatim>\<open>SELECT COUNT(*) FROM books WHERE read = 1\<close>: one row each.\<close>

definition sql_count_all :: "int statement" where
  "sql_count_all d = (d, [int (length (books d))], 0)"

definition sql_count_read :: "int statement" where
  "sql_count_read d = (d, [int (length (filter (\<lambda>r. row_read r = 1) (books d)))], 0)"

text \<open>
  \<^verbatim>\<open>SELECT key, COUNT(*) FROM books GROUP BY key\<close>: one row for each distinct value of the
  key, with the number of rows that have it. The groups come out in the order of the key.
\<close>

definition group_size :: "(row \<Rightarrow> 'k) \<Rightarrow> 'k \<Rightarrow> row list \<Rightarrow> int" where
  "group_size key k rs = int (length (filter (\<lambda>r. key r = k) rs))"

definition sql_group_count :: "(row \<Rightarrow> 'k::linorder) \<Rightarrow> row list \<Rightarrow> ('k \<times> int) list" where
  "sql_group_count key rs = map (\<lambda>k. (k, group_size key k rs)) (sort (remdups (map key rs)))"

text \<open>
  \<^verbatim>\<open>SELECT col, COUNT(*) as count FROM books GROUP BY col ORDER BY count DESC LIMIT 5\<close>,
  for the column \<^verbatim>\<open>genre\<close> or \<^verbatim>\<open>author\<close>. SQL leaves open in which order groups of equal
  count come out, and so which of them the limit keeps. The first argument is the choice of
  the engine: it ranks the keys, and groups of equal count come out by ascending rank. Every
  order that SQL allows is the order of some ranking.
\<close>

definition sql_top5 :: "(string \<Rightarrow> int) \<Rightarrow> (row \<Rightarrow> string) \<Rightarrow> (string \<times> int) statement" where
  "sql_top5 tie col d =
     (d, take 5 (sort_key (\<lambda>(k, c). - c)
                   (sort_key (\<lambda>(k, c). tie k) (sql_group_count col (books d)))), 0)"

text \<open>
  The division operator of SQLite on two integers truncates towards zero
  (\<^verbatim>\<open>-15 / 10\<close> is \<^verbatim>\<open>-1\<close>); the divisor here is the constant 10.
\<close>

definition sql_div :: "int \<Rightarrow> int \<Rightarrow> int" where
  "sql_div a b = sgn a * sgn b * (\<bar>a\<bar> div \<bar>b\<bar>)"

text \<open>
  \<^verbatim>\<open>SELECT (year / 10) * 10 as decade, COUNT(*) as count FROM books GROUP BY decade
  ORDER BY decade\<close>
\<close>

definition sql_decade :: "row \<Rightarrow> int" where
  "sql_decade r = sql_div (row_year r) 10 * 10"

definition sql_decades :: "(int \<times> int) statement" where
  "sql_decades d = (d, sort_key fst (sql_group_count sql_decade (books d)), 0)"

subsection \<open>execute_query\<close>

text \<open>
  What \<^verbatim>\<open>execute_query\<close> returns on success: the fetched rows, or \<^verbatim>\<open>cursor.lastrowid\<close>.
  \<^verbatim>\<open>None\<close> is the value returned after a caught \<^verbatim>\<open>sqlite3.Error\<close>.
\<close>

datatype 'r result = Fetched "'r list" | LastRowId int

text \<open>
  The first argument says whether the storage layer raises \<^verbatim>\<open>sqlite3.Error\<close> somewhere in
  the \<^verbatim>\<open>try\<close> block of this call (connect, execute, fetch or commit), be it for the state
  of the disk or for the statement itself (SQLite refuses a LIKE pattern of more than 50000
  bytes, and an insertion once the largest rowid has been used). The handler reports it
  and returns \<^verbatim>\<open>None\<close>; the connection is dropped uncommitted, so the file keeps its state.
  Without a fault, the fetch path returns the rows and never commits; the other path commits
  the pending transaction and returns \<^verbatim>\<open>lastrowid\<close>.
\<close>

definition execute_query :: "bool \<Rightarrow> 'r statement \<Rightarrow> bool \<Rightarrow> db \<Rightarrow> db \<times> 'r result option" where
  "execute_query fault query fetchall d =
     (if fault then (d, None)
      else (case query d of (pending, fetched, lastrowid) \<Rightarrow>
              if fetchall then (d, Some (Fetched fetched))
              else (pending, Some (LastRowId lastrowid))))"

text \<open>Python truthiness of the value \<^verbatim>\<open>execute_query\<close> returned (\<^verbatim>\<open>if not books_data\<close>).\<close>

fun falsy :: "'r result option \<Rightarrow> bool" where
  "falsy None = True"
| "falsy (Some (Fetched rs)) = (rs = [])"
| "falsy (Some (LastRowId n)) = (n = 0)"

text \<open>The rows a \<^verbatim>\<open>for\<close> loop iterates over; only a fetched list is ever iterated.\<close>

fun fetched_rows :: "'r result option \<Rightarrow> 'r list" where
  "fetched_rows (Some (Fetched rs)) = rs"
| "fetched_rows _ = []"

subsection \<open>The store operations\<close>

text \<open>The dictionary built for each fetched row; \<^verbatim>\<open>bool(book[5])\<close> is true for a non-zero integer.\<close>

record book =
  book_id :: int
  title :: string
  author :: string
  year :: int
  genre :: string
  read :: bool

definition book_of_row :: "row \<Rightarrow> book" where
  "book_of_row r = (case r of (i, t, a, y, g, rd) \<Rightarrow>
     \<lparr>book_id = i, title = t, author = a, year = y, genre = g, read = (rd \<noteq> 0)\<rparr>)"

definition add_book_to_db :: "bool \<Rightarrow> string \<Rightarrow> string \<Rightarrow> int \<Rightarrow> string \<Rightarrow> bool \<Rightarrow> db \<Rightarrow> db \<times> bool" where
  "add_book_to_db fault t a y g read_status d =
     (case execute_query fault (sql_insert t a y g read_status) False d of
        (d', inserted_id) \<Rightarrow> (d', inserted_id \<noteq> None))"

definition get_all_books :: "bool \<Rightarrow> db \<Rightarrow> db \<times> book list" where
  "get_all_books fault d =
     (case execute_query fault sql_select_all True d of
        (d', books_data) \<Rightarrow>
          if falsy books_data then (d', [])
          else (d', map book_of_row (fetched_rows books_data)))"

definition search_books :: "bool \<Rightarrow> string \<Rightarrow> string \<Rightarrow> db \<Rightarrow> db \<times> book list" where
  "search_books fault search_type search_query d =
     (let query = (if search_type = ''Title'' then sql_select_like row_title
                   else sql_select_like row_author);
          parameters = ''%'' @ py_lower search_query @ ''%''
      in case execute_query fault (query parameters) True d of
           (d', books_data) \<Rightarrow>
             if falsy books_data then (d', [])
             else (d', map book_of_row (fetched_rows books_data)))"

definition delete_book :: "bool \<Rightarrow> int \<Rightarrow> db \<Rightarrow> db \<times> bool" where
  "delete_book fault i d =
     (case execute_query fault (sql_delete i) False d of
        (d', result) \<Rightarrow> (d', result \<noteq> None))"

subsection \<open>Statistics\<close>

text \<open>Exceptions that the Python code of the store could raise outside \<^verbatim>\<open>execute_query\<close>.\<close>

datatype py_exn = ZeroDivisionError

text \<open>
  Python's \<^verbatim>\<open>float\<close> is the IEEE 754 binary64 format. A float is modelled by the rational
  number it denotes, and every float operation returns the exact result rounded to the nearest
  number with a 53-bit significand, ties to the even one. The range of the exponent is not
  modelled: the counts of a table and their quotients lie far inside it.
\<close>

definition round_half_even :: "rat \<Rightarrow> int" where
  "round_half_even q =
     (let f = \<lfloor>q\<rfloor>; d = q - of_int f
      in if d < 1 / 2 then f else if 1 / 2 < d then f + 1 else if even f then f else f + 1)"

text \<open>The exponent \<open>e\<close> of a positive number \<open>x\<close>: \<open>2 ^ e \<le> x < 2 ^ (e + 1)\<close>.\<close>

definition binade :: "rat \<Rightarrow> int" where
  "binade x =
     (case quotient_of x of (p, q) \<Rightarrow>
        let e = bitlen p - bitlen q in if power_int 2 e \<le> x then e else e - 1)"

definition to_double :: "rat \<Rightarrow> rat" where
  "to_double x =
     (if x = 0 then 0
      else let u = power_int 2 (binade \<bar>x\<bar> - 52)
           in sgn x * of_int (round_half_even (\<bar>x\<bar> / u)) * u)"

text \<open>
  Python's true division \<^verbatim>\<open>a / b\<close> of two integers returns the float nearest to the
  quotient; the product of two floats is the float nearest to the exact product.
\<close>

definition py_truediv :: "int \<Rightarrow> int \<Rightarrow> py_exn + rat" where
  "py_truediv a b = (if b = 0 then Inl ZeroDivisionError else Inr (to_double (of_int a / of_int b)))"

definition py_float_mul :: "rat \<Rightarrow> rat \<Rightarrow> rat" where
  "py_float_mul x y = to_double (x * y)"

text \<open>
  A dictionary comprehension \<^verbatim>\<open>{k: v for k, v in data}\<close>: a dictionary keeps its keys in
  the order of their first insertion, and a repeated key overwrites the value in place.
\<close>

definition py_dict :: "('k \<times> 'v) list \<Rightarrow> ('k \<times> 'v) list" where
  "py_dict data = fold (\<lambda>(k, v) m. AList.update k v m) data []"

text \<open>The decimal numeral that an f-string prints for an integer.\<close>

definition digit_char :: "nat \<Rightarrow> char" where
  "digit_char n = char_of (48 + n)"

fun nat_digits :: "nat \<Rightarrow> string" where
  "nat_digits n = (if n < 10 then [digit_char n] else nat_digits (n div 10) @ [digit_char (n mod 10)])"

definition py_str :: "int \<Rightarrow> string" where
  "py_str i = (if i < 0 then ''-'' @ nat_digits (nat (- i)) else nat_digits (nat i))"

text \<open>The number that a decimal numeral denotes; it shows that different integers print
  differently.\<close>

definition digits_value :: "string \<Rightarrow> nat" where
  "digits_value s = foldl (\<lambda>acc c. 10 * acc + (of_char c - 48)) 0 s"

record stats =
  total_books :: int
  read_books :: int
  read_percentage :: rat
  genres :: "(string \<times> int) list"
  authors :: "(string \<times> int) list"
  decades :: "(string \<times> int) list"

text \<open>
  \<^verbatim>\<open>get_statistics\<close> makes five calls of \<^verbatim>\<open>execute_query\<close>; each has its own fault flag.
  The two rankings are the engine's order among genres and among authors of equal count.
\<close>

definition get_statistics ::
  "bool \<Rightarrow> bool \<Rightarrow> bool \<Rightarrow> bool \<Rightarrow> bool \<Rightarrow> (string \<Rightarrow> int) \<Rightarrow> (string \<Rightarrow> int) \<Rightarrow> db
     \<Rightarrow> db \<times> (py_exn + stats)" where
  "get_statistics f1 f2 f3 f4 f5 tg ta d =
     (case execute_query f1 sql_count_all True d of (d1, total_result) \<Rightarrow>
      let total = (if falsy total_result then 0 else hd (fetched_rows total_result)) in
      case execute_query f2 sql_count_read True d1 of (d2, read_result) \<Rightarrow>
      let nread = (if falsy read_result then 0 else hd (fetched_rows read_result)) in
      case (if total > 0
            then (case py_truediv nread total of Inl e \<Rightarrow> Inl e
                  | Inr q \<Rightarrow> Inr (py_float_mul q 100))
            else Inr 0) of
        Inl e \<Rightarrow> (d2, Inl e)
      | Inr percentage \<Rightarrow>
          (case execute_query f3 (sql_top5 tg row_genre) True d2 of (d3, genres_data) \<Rightarrow>
           let gs = (if falsy genres_data then [] else py_dict (fetched_rows genres_data)) in
           case execute_query f4 (sql_top5 ta row_author) True d3 of (d4, authors_data) \<Rightarrow>
           let as = (if falsy authors_data then [] else py_dict (fetched_rows authors_data)) in
           case execute_query f5 sql_decades True d4 of (d5, decades_data) \<Rightarrow>
           let ds = (if falsy decades_data then []
                     else py_dict (map (\<lambda>(decade, count). (py_str decade @ ''s'', count))
                                       (fetched_rows decades_data)))
           in (d5, Inr \<lparr>total_books = total, read_books = nread, read_percentage = percentage,
                        genres = gs, authors = as, decades = ds\<rparr>)))"

subsection \<open>Sessions\<close>

text \<open>
  The display layer calls the store operations one after another. A session is the list of
  these calls, each with the fault flags of its queries; it starts from the state that
  \<^verbatim>\<open>initialize_database\<close> finds or creates.
\<close>

datatype op =
    Add bool string string int string bool
  | ListBooks bool
  | Search bool string string
  | Delete bool int
  | Statistics bool bool bool bool bool "string \<Rightarrow> int" "string \<Rightarrow> int"

fun step :: "op \<Rightarrow> db \<Rightarrow> db" where
  "step (Add f t a y g r) d = fst (add_book_to_db f t a y g r d)"
| "step (ListBooks f) d = fst (get_all_books f d)"
| "step (Search f ty q) d = fst (search_books f ty q d)"
| "step (Delete f i) d = fst (delete_book f i d)"
| "step (Statistics f1 f2 f3 f4 f5 tg ta) d = fst (get_statistics f1 f2 f3 f4 f5 tg ta d)"

definition run :: "op list \<Rightarrow> db \<Rightarrow> db" where
  "run ops d = fold step ops d"

text \<open>The ids that the INSERT statements of a session assigned, in order.\<close>

fun assigned_ids :: "op list \<Rightarrow> db \<Rightarrow> int list" where
  "assigned_ids [] d = []"
| "assigned_ids (Add f t a y g r # ops) d =
     (case snd (execute_query f (sql_insert t a y g r) False d) of
        Some (LastRowId i) \<Rightarrow> [i]
      | _ \<Rightarrow> [])
     @ assigned_ids ops (step (Add f t a y g r) d)"
| "assigned_ids (x # ops) d = assigned_ids ops (step x d)"

section \<open>Properties\<close>

subsection \<open>Unfolding the operations\<close>

lemma execute_query_fetch:
  "execute_query f q True d = (d, if f then None else Some (Fetched (fst (snd (q d)))))"
  by (simp add: execute_query_def split: prod.splits)

lemma execute_query_commit:
  "execute_query False q False d = (fst (q d), Some (LastRowId (snd (snd (q d)))))"
  by (simp add: execute_query_def split: prod.splits)

lemma get_all_books_rows:
  "get_all_books False d = (d, map book_of_row (sort_key row_title (books d)))"
  by (simp add: get_all_books_def execute_query_fetch sql_select_all_def)

lemma search_books_rows:
  "search_books False ty q d =
     (d, map book_of_row
           (sort_key (if ty = ''Title'' then row_title else row_author)
              (filter (\<lambda>r. sql_like (''%'' @ py_lower q @ ''%'')
                               (sql_lower ((if ty = ''Title'' then row_title else row_author) r)))
                 (books d))))"
  by (simp add: search_books_def execute_query_fetch sql_select_like_def Let_def)

lemma book_of_row_fields:
  "book_id (book_of_row r) = row_id r"
  "title (book_of_row r) = row_title r"
  "author (book_of_row r) = row_author r"
  "year (book_of_row r) = row_year r"
  "genre (book_of_row r) = row_genre r"
  "read (book_of_row r) = (row_read r \<noteq> 0)"
  by (simp_all add: book_of_row_def row_id_def row_title_def row_author_def row_year_def
      row_genre_def row_read_def split: prod.splits)

subsection \<open>Case folding and LIKE\<close>

lemma sql_lower_char_idem: "sql_lower_char (sql_lower_char c) = sql_lower_char c"
  by (simp add: sql_lower_char_def Let_def)

lemma of_char_sql_lower_char:
  "(of_char (sql_lower_char c) :: nat) =
     (if 65 \<le> (of_char c :: nat) \<and> (of_char c :: nat) \<le> 90 then of_char c + 32 else of_char c)"
  by (simp add: sql_lower_char_def Let_def)

lemma sql_lower_char_percent: "sql_lower_char c = CHR ''%'' \<longleftrightarrow> c = CHR ''%''"
proof -
  have "sql_lower_char c = CHR ''%'' \<longleftrightarrow> (of_char (sql_lower_char c) :: nat) = of_char CHR ''%''"
    by (simp only: of_char_eq_iff)
  also have "\<dots> \<longleftrightarrow> (of_char c :: nat) = of_char CHR ''%''"
    by (simp add: of_char_sql_lower_char)
  also have "\<dots> \<longleftrightarrow> c = CHR ''%''"
    by (simp only: of_char_eq_iff)
  finally show ?thesis .
qed

lemma sql_lower_char_underscore: "sql_lower_char c = CHR ''_'' \<longleftrightarrow> c = CHR ''_''"
proof -
  have "sql_lower_char c = CHR ''_'' \<longleftrightarrow> (of_char (sql_lower_char c) :: nat) = of_char CHR ''_''"
    by (simp only: of_char_eq_iff)
  also have "\<dots> \<longleftrightarrow> (of_char c :: nat) = of_char CHR ''_''"
    by (simp add: of_char_sql_lower_char)
  also have "\<dots> \<longleftrightarrow> c = CHR ''_''"
    by (simp only: of_char_eq_iff)
  finally show ?thesis .
qed

lemma sql_lower_idem: "sql_lower (sql_lower s) = sql_lower s"
  by (simp add: sql_lower_def sql_lower_char_idem)

lemma sql_lower_percent: "CHR ''%'' \<in> set (sql_lower s) \<longleftrightarrow> CHR ''%'' \<in> set s"
  using sql_lower_char_percent [of c for c]
  by (induction s) (auto simp add: sql_lower_def eq_commute [of "CHR ''%''"])

lemma sql_lower_underscore: "CHR ''_'' \<in> set (sql_lower s) \<longleftrightarrow> CHR ''_'' \<in> set s"
  using sql_lower_char_underscore [of c for c]
  by (induction s) (auto simp add: sql_lower_def eq_commute [of "CHR ''_''"])

declare pattern_compare.simps [simp del]

lemma pattern_compare_Nil: "pattern_compare [] s \<longleftrightarrow> s = []"
  by (simp add: pattern_compare.simps)

lemma pattern_compare_percent_Nil: "pattern_compare (CHR ''%'' # ps) [] \<longleftrightarrow> pattern_compare ps []"
  by (subst pattern_compare.simps) simp

lemma pattern_compare_percent_Cons:
  "pattern_compare (CHR ''%'' # ps) (c # cs) \<longleftrightarrow> pattern_compare ps (c # cs) \<or> pattern_compare (CHR ''%'' # ps) cs"
  by (subst pattern_compare.simps) simp

lemma pattern_compare_char_Nil: "p \<noteq> CHR ''%'' \<Longrightarrow> \<not> pattern_compare (p # ps) []"
  by (subst pattern_compare.simps) simp

lemma pattern_compare_char_Cons:
  "p \<noteq> CHR ''%'' \<Longrightarrow>
   pattern_compare (p # ps) (c # cs) \<longleftrightarrow> (p = CHR ''_'' \<or> sql_lower_char p = sql_lower_char c) \<and> pattern_compare ps cs"
  by (subst pattern_compare.simps) simp

text \<open>A leading percent sign lets the rest of the pattern match any suffix of the text.\<close>

lemma pattern_compare_percent:
  "pattern_compare (CHR ''%'' # ps) s \<longleftrightarrow> (\<exists>u t. s = u @ t \<and> pattern_compare ps t)"
proof (induction s)
  case Nil
  then show ?case by (simp add: pattern_compare_percent_Nil)
next
  case (Cons c cs)
  show ?case
  proof
    assume "pattern_compare (CHR ''%'' # ps) (c # cs)"
    then consider "pattern_compare ps (c # cs)" | "pattern_compare (CHR ''%'' # ps) cs"
      unfolding pattern_compare_percent_Cons by blast
    then show "\<exists>u t. c # cs = u @ t \<and> pattern_compare ps t"
    proof cases
      case 1
      then have "c # cs = [] @ (c # cs) \<and> pattern_compare ps (c # cs)" by simp
      then show ?thesis by blast
    next
      case 2
      with Cons.IH obtain u t where "cs = u @ t" "pattern_compare ps t" by blast
      then have "c # cs = (c # u) @ t \<and> pattern_compare ps t" by simp
      then show ?thesis by blast
    qed
  next
    assume "\<exists>u t. c # cs = u @ t \<and> pattern_compare ps t"
    then obtain u t where ut: "c # cs = u @ t" "pattern_compare ps t" by blast
    show "pattern_compare (CHR ''%'' # ps) (c # cs)"
    proof (cases u)
      case Nil
      with ut show ?thesis by (auto simp add: pattern_compare_percent_Cons)
    next
      case (Cons x xs)
      with ut have "cs = xs @ t" by simp
      with ut Cons.IH have "pattern_compare (CHR ''%'' # ps) cs" by blast
      then show ?thesis by (simp add: pattern_compare_percent_Cons)
    qed
  qed
qed

text \<open>A pattern part without wildcards matches a prefix that equals it up to ASCII case.\<close>

lemma pattern_compare_plain:
  assumes "CHR ''%'' \<notin> set p" "CHR ''_'' \<notin> set p"
  shows "pattern_compare (p @ q) s \<longleftrightarrow> (\<exists>w t. s = w @ t \<and> sql_lower w = sql_lower p \<and> pattern_compare q t)"
  using assms
proof (induction p arbitrary: s)
  case Nil
  then show ?case by (simp add: sql_lower_def)
next
  case (Cons x xs)
  have x: "x \<noteq> CHR ''%''" "x \<noteq> CHR ''_''" using Cons.prems by auto
  show ?case
  proof (cases s)
    case Nil
    then show ?thesis using x by (simp add: sql_lower_def pattern_compare_char_Nil)
  next
    case s: (Cons c cs)
    have IH: "pattern_compare (xs @ q) cs \<longleftrightarrow> (\<exists>w t. cs = w @ t \<and> sql_lower w = sql_lower xs \<and> pattern_compare q t)"
      using Cons.IH Cons.prems by simp
    have step: "pattern_compare ((x # xs) @ q) s \<longleftrightarrow> sql_lower_char x = sql_lower_char c \<and> pattern_compare (xs @ q) cs"
      using x s by (simp add: pattern_compare_char_Cons)
    show ?thesis
    proof
      assume "pattern_compare ((x # xs) @ q) s"
      with step have c: "sql_lower_char x = sql_lower_char c" and "pattern_compare (xs @ q) cs" by simp_all
      with IH obtain w t where "cs = w @ t" "sql_lower w = sql_lower xs" "pattern_compare q t" by blast
      with c s have "s = (c # w) @ t \<and> sql_lower (c # w) = sql_lower (x # xs) \<and> pattern_compare q t"
        by (simp add: sql_lower_def)
      then show "\<exists>w t. s = w @ t \<and> sql_lower w = sql_lower (x # xs) \<and> pattern_compare q t" by blast
    next
      assume "\<exists>w t. s = w @ t \<and> sql_lower w = sql_lower (x # xs) \<and> pattern_compare q t"
      then obtain w t where wt: "s = w @ t" "sql_lower w = sql_lower (x # xs)" "pattern_compare q t" by blast
      from wt(2) obtain c' w' where w: "w = c' # w'" "sql_lower_char c' = sql_lower_char x" "sql_lower w' = sql_lower xs"
        by (cases w) (simp_all add: sql_lower_def)
      with wt s have "c' = c" "cs = w' @ t" by simp_all
      with IH w wt have "pattern_compare (xs @ q) cs" by blast
      with step w \<open>c' = c\<close> show "pattern_compare ((x # xs) @ q) s" by simp
    qed
  qed
qed

text \<open>Between two percent signs, a wildcard-free pattern is a test for containment.\<close>

lemma pattern_compare_contains:
  assumes "CHR ''%'' \<notin> set p" "CHR ''_'' \<notin> set p"
  shows "pattern_compare (''%'' @ p @ ''%'') s \<longleftrightarrow> sublist (sql_lower p) (sql_lower s)"
proof -
  have any: "pattern_compare ''%'' t" for t
    by (simp add: pattern_compare_percent pattern_compare_Nil)
  have "pattern_compare (''%'' @ p @ ''%'') s \<longleftrightarrow> (\<exists>u t. s = u @ t \<and> pattern_compare (p @ ''%'') t)"
    by (simp add: pattern_compare_percent)
  also have "\<dots> \<longleftrightarrow> (\<exists>u w t. s = u @ w @ t \<and> sql_lower w = sql_lower p)"
    using any by (simp add: pattern_compare_plain [OF assms]) blast
  also have "\<dots> \<longleftrightarrow> sublist (sql_lower p) (sql_lower s)"
  proof
    assume "\<exists>u w t. s = u @ w @ t \<and> sql_lower w = sql_lower p"
    then obtain u w t where "s = u @ w @ t" "sql_lower w = sql_lower p" by blast
    then have "sql_lower s = sql_lower u @ sql_lower p @ sql_lower t" by (simp add: sql_lower_def)
    then show "sublist (sql_lower p) (sql_lower s)" unfolding sublist_def by blast
  next
    assume "sublist (sql_lower p) (sql_lower s)"
    then obtain a b where "map sql_lower_char s = a @ sql_lower p @ b"
      unfolding sublist_def sql_lower_def by blast
    then obtain u r where ur: "s = u @ r" "map sql_lower_char r = sql_lower p @ b"
      by (metis map_eq_append_conv)
    then obtain w t where "r = w @ t" "map sql_lower_char w = sql_lower p"
      by (metis map_eq_append_conv)
    with ur have "s = u @ w @ t \<and> sql_lower w = sql_lower p" by (simp add: sql_lower_def)
    then show "\<exists>u w t. s = u @ w @ t \<and> sql_lower w = sql_lower p" by blast
  qed
  finally show ?thesis .
qed

text \<open>Every pattern matches itself, wildcards included.\<close>

lemma pattern_compare_refl: "pattern_compare p p"
proof (induction p)
  case Nil
  then show ?case by (simp add: pattern_compare_Nil)
next
  case (Cons c cs)
  show ?case
  proof (cases "c = CHR ''%''")
    case True
    have "pattern_compare (CHR ''%'' # cs) cs"
      using Cons.IH by (cases cs) (simp_all add: pattern_compare_percent_Nil pattern_compare_percent_Cons)
    then show ?thesis using True by (simp add: pattern_compare_percent_Cons)
  next
    case False
    then show ?thesis using Cons.IH by (simp add: pattern_compare_char_Cons)
  qed
qed

lemma pattern_compare_append: "pattern_compare p s \<Longrightarrow> pattern_compare (p @ ''%'') s"
proof (induction p arbitrary: s)
  case Nil
  then show ?case by (simp add: pattern_compare_Nil pattern_compare_percent_Nil)
next
  case (Cons x xs)
  show ?case
  proof (cases "x = CHR ''%''")
    case True
    with Cons.prems obtain u t where "s = u @ t" "pattern_compare xs t"
      by (auto simp: pattern_compare_percent)
    with Cons.IH have "s = u @ t \<and> pattern_compare (xs @ ''%'') t" by blast
    then show ?thesis using True by (auto simp: pattern_compare_percent)
  next
    case False
    with Cons.prems obtain c cs where s: "s = c # cs"
      by (cases s) (auto simp: pattern_compare_char_Nil)
    with Cons.prems False have "(x = CHR ''_'' \<or> sql_lower_char x = sql_lower_char c) \<and> pattern_compare xs cs"
      by (simp add: pattern_compare_char_Cons)
    with Cons.IH have "(x = CHR ''_'' \<or> sql_lower_char x = sql_lower_char c) \<and> pattern_compare (xs @ ''%'') cs"
      by blast
    with s False show ?thesis by (simp add: pattern_compare_char_Cons)
  qed
qed

lemma pattern_compare_self: "pattern_compare (''%'' @ p @ ''%'') p"
proof -
  have "p = [] @ p \<and> pattern_compare (p @ ''%'') p"
    using pattern_compare_append [OF pattern_compare_refl, of p] by simp
  then have "pattern_compare (CHR ''%'' # (p @ ''%'')) p"
    unfolding pattern_compare_percent by blast
  then show ?thesis by simp
qed

text \<open>Reading up to the first NUL character.\<close>

lemma c_str_id: "CHR 0x00 \<notin> set s \<Longrightarrow> c_str s = s"
  by (induction s) (auto simp add: c_str_def)

lemma sql_lower_char_nul: "sql_lower_char c = CHR 0x00 \<longleftrightarrow> c = CHR 0x00"
proof -
  have "sql_lower_char c = CHR 0x00 \<longleftrightarrow> (of_char (sql_lower_char c) :: nat) = of_char CHR 0x00"
    by (simp only: of_char_eq_iff)
  also have "\<dots> \<longleftrightarrow> (of_char c :: nat) = of_char CHR 0x00"
    by (simp add: of_char_sql_lower_char)
  also have "\<dots> \<longleftrightarrow> c = CHR 0x00"
    by (simp only: of_char_eq_iff)
  finally show ?thesis .
qed

lemma sql_lower_nul: "CHR 0x00 \<in> set (sql_lower s) \<longleftrightarrow> CHR 0x00 \<in> set s"
  using sql_lower_char_nul [of c for c]
  by (induction s) (auto simp add: sql_lower_def eq_commute [of "CHR 0x00"])

lemma c_str_sql_lower: "c_str (sql_lower s) = sql_lower (c_str s)"
  by (simp add: c_str_def sql_lower_def takeWhile_map comp_def sql_lower_char_nul)

lemma c_str_Cons: "c \<noteq> CHR 0x00 \<Longrightarrow> c_str (c # s) = c # c_str s"
  by (simp add: c_str_def)

lemma c_str_append:
  "c_str (s @ t) = (if CHR 0x00 \<in> set s then c_str s else s @ c_str t)"
  by (induction s) (auto simp add: c_str_def)

text \<open>The pattern that \<^verbatim>\<open>search_books\<close> builds, for a search string without wildcards.\<close>

lemma search_books_matches:
  assumes "CHR ''%'' \<notin> set q" "CHR ''_'' \<notin> set q" "CHR 0x00 \<notin> set q" "py_lower q = sql_lower q"
  shows "sql_like (CHR ''%'' # py_lower q @ ''%'') (sql_lower s)
           \<longleftrightarrow> sublist (sql_lower q) (sql_lower (c_str s))"
proof -
  have a: "CHR ''%'' \<notin> set (sql_lower q)" and b: "CHR ''_'' \<notin> set (sql_lower q)"
    and c: "CHR 0x00 \<notin> set (sql_lower q)"
    using assms by (simp_all add: sql_lower_percent sql_lower_underscore sql_lower_nul)
  have "c_str (CHR ''%'' # sql_lower q @ ''%'') = ''%'' @ sql_lower q @ ''%''"
    using c by (simp add: c_str_Cons c_str_append c_str_id)
  with pattern_compare_contains [OF a b, of "sql_lower (c_str s)"] show ?thesis
    by (simp add: assms(4) sql_like_def sql_lower_idem c_str_sql_lower)
qed

text \<open>The pattern built from a text matches that text, whatever characters it has.\<close>

lemma sql_like_exact: "sql_like (CHR ''%'' # p @ ''%'') p"
proof (cases "CHR 0x00 \<in> set p")
  case True
  have "c_str p = [] @ c_str p \<and> pattern_compare (c_str p) (c_str p)"
    by (simp add: pattern_compare_refl)
  then have "pattern_compare (CHR ''%'' # c_str p) (c_str p)"
    unfolding pattern_compare_percent by blast
  then show ?thesis
    using True by (simp add: sql_like_def c_str_Cons c_str_append)
next
  case False
  then show ?thesis
    using pattern_compare_self [of p] by (simp add: sql_like_def c_str_Cons c_str_append c_str_id)
qed

subsection \<open>Row ids\<close>

lemma fold_max_ge: "(a::int) \<le> fold max xs a"
proof (induction xs arbitrary: a)
  case Nil
  then show ?case by simp
next
  case (Cons x xs)
  have "a \<le> max x a" by simp
  also have "\<dots> \<le> fold max xs (max x a)" by (rule Cons.IH)
  finally show ?case by simp
qed

lemma fold_max_mem: "x \<in> set xs \<Longrightarrow> (x::int) \<le> fold max xs a"
proof (induction xs arbitrary: a)
  case Nil
  then show ?case by simp
next
  case (Cons y ys)
  show ?case
  proof (cases "x = y")
    case True
    have "x \<le> max y a" using True by simp
    also have "\<dots> \<le> fold max ys (max y a)" by (rule fold_max_ge)
    finally show ?thesis by simp
  next
    case False
    with Cons.prems have "x \<in> set ys" by simp
    then show ?thesis using Cons.IH by simp
  qed
qed

lemma next_rowid_above_seq: "seq d < next_rowid d"
  using fold_max_ge [of "seq d" "map row_id (books d)"] by (simp add: next_rowid_def)

lemma next_rowid_above_rows: "r \<in> set (books d) \<Longrightarrow> row_id r < next_rowid d"
  using fold_max_mem [of "row_id r" "map row_id (books d)" "seq d"] by (simp add: next_rowid_def)

lemma add_book_to_db_ok:
  "add_book_to_db False t a y g r d =
     (\<lparr>books = books d @ [(next_rowid d, t, a, y, g, if r then 1 else 0)], seq = next_rowid d\<rparr>, True)"
  by (simp add: add_book_to_db_def execute_query_commit sql_insert_def Let_def)

lemma add_book_to_db_fault: "add_book_to_db True t a y g r d = (d, False)"
  by (simp add: add_book_to_db_def execute_query_def)

lemma delete_book_ok:
  "delete_book False i d = (d\<lparr>books := filter (\<lambda>r. row_id r \<noteq> i) (books d)\<rparr>, True)"
  by (simp add: delete_book_def execute_query_commit sql_delete_def)

lemma delete_book_fault: "delete_book True i d = (d, False)"
  by (simp add: delete_book_def execute_query_def)

lemma get_all_books_state: "fst (get_all_books f d) = d"
  by (simp add: get_all_books_def execute_query_fetch)

lemma search_books_state: "fst (search_books f ty q d) = d"
  by (simp add: search_books_def execute_query_fetch Let_def)

lemma get_statistics_state: "fst (get_statistics f1 f2 f3 f4 f5 tg ta d) = d"
  by (simp add: get_statistics_def execute_query_fetch Let_def split: sum.split)

lemma seq_step: "seq d \<le> seq (step x d)"
proof (cases x)
  case (Add f t a y g r)
  then show ?thesis
    using next_rowid_above_seq [of d]
    by (cases f) (simp_all add: add_book_to_db_ok add_book_to_db_fault)
next
  case (Delete f i)
  then show ?thesis by (cases f) (simp_all add: delete_book_ok delete_book_fault)
qed (simp_all add: get_all_books_state search_books_state get_statistics_state)

lemma seq_run: "seq d \<le> seq (run ops d)"
  unfolding run_def
proof (induction ops arbitrary: d)
  case Nil
  then show ?case by simp
next
  case (Cons x xs)
  have "seq d \<le> seq (step x d)" by (rule seq_step)
  also have "\<dots> \<le> seq (fold step xs (step x d))" by (rule Cons.IH)
  finally show ?case by simp
qed

text \<open>Every id that a session assigns lies above the sequence entry it started from and at
  most at the entry it ends with.\<close>

lemma assigned_ids_bounds:
  "i \<in> set (assigned_ids ops d) \<Longrightarrow> seq d < i \<and> i \<le> seq (run ops d)"
proof (induction ops arbitrary: d)
  case Nil
  then show ?case by simp
next
  case (Cons x xs)
  have run: "run (x # xs) d = run xs (step x d)" by (simp add: run_def)
  have later: "i \<in> set (assigned_ids xs (step x d)) \<Longrightarrow> ?case"
    using Cons.IH [of "step x d"] seq_step [of d x] unfolding run by fastforce
  show ?case
  proof (cases x)
    case (Add f t a y g r)
    show ?thesis
    proof (cases f)
      case True
      with Add Cons.prems have "i \<in> set (assigned_ids xs (step x d))"
        by (simp add: execute_query_def)
      then show ?thesis by (rule later)
    next
      case False
      with Add Cons.prems consider "i = next_rowid d" | "i \<in> set (assigned_ids xs (step x d))"
        by (auto simp add: execute_query_commit sql_insert_def Let_def)
      then show ?thesis
      proof cases
        case 1
        have "seq (step x d) = next_rowid d"
          using Add False by (simp add: add_book_to_db_ok)
        then have "next_rowid d \<le> seq (run (x # xs) d)"
          unfolding run using seq_run [of "step x d" xs] by simp
        with 1 next_rowid_above_seq [of d] show ?thesis by simp
      next
        case 2
        then show ?thesis by (rule later)
      qed
    qed
  next
    case (ListBooks f)
    with Cons.prems show ?thesis using later by simp
  next
    case (Search f ty q)
    with Cons.prems show ?thesis using later by simp
  next
    case (Delete f i')
    with Cons.prems show ?thesis using later by simp
  next
    case (Statistics f1 f2 f3 f4 f5 tg ta)
    with Cons.prems show ?thesis using later by simp
  qed
qed

lemma seq_session_nonneg: "0 \<le> seq (run ops empty_db)"
  using seq_run [of empty_db ops] by (simp add: empty_db_def)

lemma py_dict_Nil: "py_dict [] = []"
  by (simp add: py_dict_def)

text \<open>The report in closed form: no branch of \<^verbatim>\<open>get_statistics\<close> raises.\<close>

lemma get_statistics_value:
  "get_statistics f1 f2 f3 f4 f5 tg ta d =
     (d, Inr \<lparr>total_books = (if f1 then 0 else int (length (books d))),
              read_books = (if f2 then 0 else int (length (filter (\<lambda>r. row_read r = 1) (books d)))),
              read_percentage =
                (if f1 \<or> books d = [] then 0
                 else py_float_mul
                        (to_double
                          (of_int (if f2 then 0 else int (length (filter (\<lambda>r. row_read r = 1) (books d))))
                           / of_int (int (length (books d)))))
                        100),
              genres = (if f3 then [] else py_dict (fst (snd (sql_top5 tg row_genre d)))),
              authors = (if f4 then [] else py_dict (fst (snd (sql_top5 ta row_author d)))),
              decades = (if f5 then []
                         else py_dict (map (\<lambda>(decade, count). (py_str decade @ ''s'', count))
                                (fst (snd (sql_decades d)))))\<rparr>)"
  by (simp add: get_statistics_def execute_query_fetch Let_def py_truediv_def py_dict_Nil
      sql_count_all_def sql_count_read_def)

subsection \<open>Rounding to a double\<close>

lemma round_half_even_error: "\<bar>of_int (round_half_even q) - q\<bar> \<le> 1 / 2"
proof -
  have "of_int \<lfloor>q\<rfloor> \<le> q" "q < of_int \<lfloor>q\<rfloor> + 1"
    by linarith+
  then show ?thesis
    by (auto simp add: round_half_even_def Let_def)
qed

lemma round_half_even_nonneg: "0 \<le> q \<Longrightarrow> 0 \<le> round_half_even q"
  by (auto simp add: round_half_even_def Let_def)

lemma binade_lower:
  assumes "0 < x"
  shows "power_int 2 (binade x) \<le> x"
proof -
  obtain p q where pq: "quotient_of x = (p, q)" by (cases "quotient_of x")
  then have q: "0 < q" and x: "x = of_int p / of_int q"
    by (simp_all add: quotient_of_denom_pos quotient_of_div)
  with assms have p: "0 < p"
    by (simp add: zero_less_divide_iff)
  let ?e = "bitlen p - bitlen q"
  show ?thesis
  proof (cases "power_int 2 ?e \<le> x")
    case True
    then show ?thesis by (simp add: binade_def pq Let_def)
  next
    case False
    have bp: "1 \<le> bitlen p" using p by (simp add: bitlen_alt_def)
    have "(2::int) ^ nat (bitlen p - 1) \<le> p"
      using bitlen_bounds [OF p] by simp
    then have "(of_int ((2::int) ^ nat (bitlen p - 1)) :: rat) \<le> of_int p"
      by (simp only: of_int_le_iff)
    then have lo: "power_int (2::rat) (bitlen p - 1) \<le> of_int p"
      using bp by (simp add: power_int_def)
    have "q < (2::int) ^ nat (bitlen q)"
      using bitlen_bounds [OF q] by simp
    then have "(of_int q :: rat) \<le> of_int ((2::int) ^ nat (bitlen q))"
      by (simp only: of_int_le_iff)
    then have hi: "(of_int q :: rat) \<le> power_int 2 (bitlen q)"
      using bitlen_nonneg [of q] by (simp add: power_int_def)
    have "power_int (2::rat) (?e - 1) = power_int 2 (bitlen p - 1) / power_int 2 (bitlen q)"
      using power_int_diff [of "2::rat" "bitlen p - 1" "bitlen q"] by (simp add: algebra_simps)
    also have "\<dots> \<le> of_int p / of_int q"
      using lo hi q p by (intro frac_le) simp_all
    also have "\<dots> = x" by (simp only: x)
    finally have "power_int 2 (?e - 1) \<le> x" .
    moreover have "binade x = ?e - 1"
      using False by (simp add: binade_def pq Let_def)
    ultimately show ?thesis by (simp only:)
  qed
qed

lemma to_double_zero: "to_double 0 = 0"
  by (simp add: to_double_def)

lemma py_float_mul_zero: "py_float_mul 0 y = 0"
  by (simp add: py_float_mul_def to_double_zero)

lemma to_double_nonneg: "0 \<le> x \<Longrightarrow> 0 \<le> to_double x"
  by (simp add: to_double_def Let_def round_half_even_nonneg sgn_if)

lemma to_double_error:
  assumes "0 < x"
  shows "\<bar>to_double x - x\<bar> \<le> x / 2 ^ 53"
proof -
  define u :: rat where "u = power_int 2 (binade x - 52)"
  define n where "n = round_half_even (x / u)"
  have u: "0 < u" by (simp add: u_def)
  have td: "to_double x = of_int n * u"
    using assms by (simp add: to_double_def Let_def u_def n_def)
  have "\<bar>of_int n - x / u\<bar> \<le> 1 / 2"
    unfolding n_def by (rule round_half_even_error)
  then have "\<bar>of_int n - x / u\<bar> * u \<le> 1 / 2 * u"
    using u by (intro mult_right_mono) simp_all
  moreover have "(of_int n - x / u) * u = of_int n * u - x"
    using u by (simp add: field_simps)
  then have "\<bar>of_int n - x / u\<bar> * u = \<bar>of_int n * u - x\<bar>"
    using u abs_mult_pos [of u "of_int n - x / u"] by simp
  ultimately have err: "\<bar>of_int n * u - x\<bar> \<le> u / 2" by simp
  have "u = power_int 2 (binade x) / 2 ^ 52"
    using power_int_diff [of "2::rat" "binade x" 52] by (simp add: u_def)
  then have "u / 2 = power_int 2 (binade x) / 2 ^ 53" by simp
  also have "\<dots> \<le> x / 2 ^ 53"
    using binade_lower [OF assms] by (intro divide_right_mono) simp_all
  finally show ?thesis using err td by simp
qed

text \<open>Dividing and then multiplying by 100 loses at most a relative \<open>2\<^sup>-\<^sup>5\<^sup>1\<close>.\<close>

lemma percentage_error:
  assumes "0 \<le> a"
  shows "\<bar>py_float_mul (to_double a) 100 - 100 * a\<bar> \<le> 100 * a / 2 ^ 51"
proof (cases "a = 0")
  case True
  then show ?thesis by (simp add: py_float_mul_def to_double_def)
next
  case False
  with assms have a: "0 < a" by simp
  define x where "x = to_double a"
  have x1: "\<bar>x - a\<bar> \<le> a / 2 ^ 53"
    unfolding x_def by (rule to_double_error [OF a])
  moreover have "a / 2 ^ 53 \<le> a / 2"
    using a by simp
  ultimately have xa: "x \<le> 2 * a" and "a / 2 \<le> x"
    by linarith+
  with a have y: "0 < x * 100" by simp
  have "\<bar>to_double (x * 100) - x * 100\<bar> \<le> x * 100 / 2 ^ 53"
    by (rule to_double_error [OF y])
  also have "\<dots> \<le> 2 * a * 100 / 2 ^ 53"
    using xa by (intro divide_right_mono mult_right_mono) simp_all
  finally have e2: "\<bar>to_double (x * 100) - x * 100\<bar> \<le> 2 * a * 100 / 2 ^ 53" .
  have "\<bar>x * 100 - 100 * a\<bar> = \<bar>100 * (x - a)\<bar>"
    by (simp add: algebra_simps)
  also have "\<dots> = 100 * \<bar>x - a\<bar>"
    by (simp only: abs_mult abs_numeral)
  finally have "\<bar>x * 100 - 100 * a\<bar> = 100 * \<bar>x - a\<bar>" .
  with x1 have e1: "\<bar>x * 100 - 100 * a\<bar> \<le> 100 * a / 2 ^ 53" by simp
  have "\<bar>to_double (x * 100) - 100 * a\<bar> \<le> 2 * a * 100 / 2 ^ 53 + 100 * a / 2 ^ 53"
    using e1 e2 by linarith
  also have "\<dots> \<le> 100 * a / 2 ^ 51"
    using a by (simp add: field_simps)
  finally show ?thesis by (simp add: py_float_mul_def x_def)
qed

subsection \<open>Dictionaries and decimal numerals\<close>

lemma update_fresh: "k \<notin> fst ` set m \<Longrightarrow> AList.update k v m = m @ [(k, v)]"
  by (induction m) auto

lemma fold_update_distinct:
  "distinct (map fst xs) \<Longrightarrow> fst ` set m \<inter> fst ` set xs = {} \<Longrightarrow>
   fold (\<lambda>(k, v) m. AList.update k v m) xs m = m @ xs"
proof (induction xs arbitrary: m)
  case Nil
  then show ?case by simp
next
  case (Cons x xs)
  obtain k v where x: "x = (k, v)" by (cases x)
  have fresh: "k \<notin> fst ` set m" using Cons.prems(2) x by auto
  have "fst ` set (m @ [(k, v)]) \<inter> fst ` set xs = {}"
    using Cons.prems x by auto
  moreover have "distinct (map fst xs)" using Cons.prems(1) by simp
  ultimately have "fold (\<lambda>(k, v) m. AList.update k v m) xs (m @ [(k, v)]) = (m @ [(k, v)]) @ xs"
    by (rule Cons.IH [rotated])
  then show ?case by (simp add: x update_fresh [OF fresh])
qed

lemma py_dict_distinct: "distinct (map fst xs) \<Longrightarrow> py_dict xs = xs"
  using fold_update_distinct [of xs "[]"] by (simp add: py_dict_def)

declare nat_digits.simps [simp del]

lemma of_char_digit_char: "n < 10 \<Longrightarrow> (of_char (digit_char n) :: nat) = 48 + n"
  by (simp add: digit_char_def)

lemma digits_value_nat_digits: "digits_value (nat_digits n) = n"
proof (induction n rule: nat_digits.induct)
  case (1 n)
  show ?case
  proof (cases "n < 10")
    case True
    then show ?thesis
      by (subst nat_digits.simps) (simp add: digits_value_def of_char_digit_char)
  next
    case False
    with 1 have IH: "digits_value (nat_digits (n div 10)) = n div 10" by simp
    have "n mod 10 < 10" by simp
    then have "(of_char (digit_char (n mod 10)) :: nat) = 48 + n mod 10"
      by (rule of_char_digit_char)
    with False IH show ?thesis
      by (subst nat_digits.simps) (simp add: digits_value_def)
  qed
qed

lemma nat_digits_inj: "nat_digits m = nat_digits n \<Longrightarrow> m = n"
  by (metis digits_value_nat_digits)

lemma digit_char_not_minus: "n < 10 \<Longrightarrow> digit_char n \<noteq> CHR ''-''"
proof
  assume "n < 10" and "digit_char n = CHR ''-''"
  then have "(of_char (digit_char n) :: nat) = of_char CHR ''-''" by simp
  with \<open>n < 10\<close> show False by (simp add: of_char_digit_char)
qed

lemma nat_digits_hd: "\<exists>c cs. nat_digits n = c # cs \<and> c \<noteq> CHR ''-''"
proof (induction n rule: nat_digits.induct)
  case (1 n)
  show ?case
  proof (cases "n < 10")
    case True
    then show ?thesis
      by (subst nat_digits.simps) (simp add: digit_char_not_minus)
  next
    case False
    with 1 obtain c cs where "nat_digits (n div 10) = c # cs" "c \<noteq> CHR ''-''" by blast
    with False show ?thesis
      by (subst nat_digits.simps) simp
  qed
qed

lemma py_str_inj: "py_str i = py_str j \<Longrightarrow> i = j"
proof -
  assume eq: "py_str i = py_str j"
  have clash: False if "nat_digits m = CHR ''-'' # s" for m s
    using nat_digits_hd [of m] that by auto
  consider "i < 0" "j < 0" | "i < 0" "0 \<le> j" | "0 \<le> i" "j < 0" | "0 \<le> i" "0 \<le> j"
    by linarith
  then show "i = j"
  proof cases
    case 1
    with eq have "nat (- i) = nat (- j)" by (simp add: py_str_def nat_digits_inj)
    with 1 show ?thesis by simp
  next
    case 2
    with eq clash [of "nat j" "nat_digits (nat (- i))"] show ?thesis by (simp add: py_str_def)
  next
    case 3
    with eq clash [of "nat i" "nat_digits (nat (- j))"] show ?thesis by (simp add: py_str_def)
  next
    case 4
    with eq have "nat i = nat j" by (simp add: py_str_def nat_digits_inj)
    with 4 show ?thesis by simp
  qed
qed

lemma decade_label_inj: "inj (\<lambda>k. py_str k @ ''s'')"
  by (rule injI) (simp add: py_str_inj)

subsection \<open>Grouping\<close>

lemma group_keys:
  "sorted (sort (remdups (map key rs)))"
  "distinct (sort (remdups (map key rs)))"
  "set (sort (remdups (map key rs))) = key ` set rs"
  by simp_all

lemma sql_group_count_keys: "map fst (sql_group_count key rs) = sort (remdups (map key rs))"
  by (simp add: sql_group_count_def comp_def)

lemma sql_group_count_mem:
  "(k, c) \<in> set (sql_group_count key rs) \<longleftrightarrow> k \<in> key ` set rs \<and> c = group_size key k rs"
  by (auto simp add: sql_group_count_def)

lemma sql_group_count_length: "length (sql_group_count key rs) = card (key ` set rs)"
proof -
  have "length (sql_group_count key rs) = length (sort (remdups (map key rs)))"
    by (simp add: sql_group_count_def)
  also have "\<dots> = card (set (sort (remdups (map key rs))))"
    by (rule distinct_card [symmetric]) simp
  finally show ?thesis by simp
qed

text \<open>The rows of the decade query: already in the order of the decade.\<close>

lemma sql_decades_rows:
  "fst (snd (sql_decades d)) =
     map (\<lambda>k. (k, group_size sql_decade k (books d))) (sort (remdups (map sql_decade (books d))))"
proof -
  have "sorted (map fst (sql_group_count sql_decade (books d)))"
    by (simp add: sql_group_count_keys)
  then have "sort_key fst (sql_group_count sql_decade (books d)) = sql_group_count sql_decade (books d)"
    by (rule sort_key_id_if_sorted)
  then show ?thesis
    by (simp add: sql_decades_def sql_group_count_def)
qed

lemma decade_labels_distinct: "distinct ks \<Longrightarrow> distinct (map (\<lambda>k. py_str k @ ''s'') ks)"
  by (simp add: distinct_map inj_on_subset [OF decade_label_inj subset_UNIV])

lemma decades_dict:
  "py_dict (map (\<lambda>(decade, count). (py_str decade @ ''s'', count)) (fst (snd (sql_decades d)))) =
     map (\<lambda>k. (py_str k @ ''s'', group_size sql_decade k (books d)))
       (sort (remdups (map sql_decade (books d))))"
proof -
  let ?ks = "sort (remdups (map sql_decade (books d)))"
  have rows: "map (\<lambda>(decade, count). (py_str decade @ ''s'', count)) (fst (snd (sql_decades d))) =
      map (\<lambda>k. (py_str k @ ''s'', group_size sql_decade k (books d))) ?ks"
    by (simp add: sql_decades_rows)
  have "distinct (map (\<lambda>k. py_str k @ ''s'') ?ks)"
    by (simp add: decade_labels_distinct)
  then have "distinct (map fst (map (\<lambda>k. (py_str k @ ''s'', group_size sql_decade k (books d))) ?ks))"
    by (simp add: comp_def)
  then show ?thesis
    unfolding rows by (rule py_dict_distinct)
qed

lemma sql_decade_floor:
  "sql_decade r = (if 0 \<le> row_year r then row_year r div 10 * 10 else - ((- row_year r) div 10 * 10))"
  by (simp add: sql_decade_def sql_div_def sgn_if)

subsection \<open>The five largest groups\<close>

lemma sql_top5_rows:
  "fst (snd (sql_top5 tie key d)) =
     take 5 (sort_key (\<lambda>(k, c). - c)
               (sort_key (\<lambda>(k, c). tie k) (sql_group_count key (books d))))"
  by (simp add: sql_top5_def)

lemma sql_top5_length:
  "length (fst (snd (sql_top5 tie key d))) = min 5 (card (key ` set (books d)))"
  by (simp add: sql_top5_rows sql_group_count_length min.commute)

lemma sql_top5_distinct: "distinct (map fst (fst (snd (sql_top5 tie key d))))"
proof -
  let ?G = "sql_group_count key (books d)"
  let ?S = "sort_key (\<lambda>(k, c). - c) (sort_key (\<lambda>(k, c). tie k) ?G)"
  have "mset (map fst ?S) = mset (map fst ?G)" by simp
  moreover have "distinct (map fst ?G)" by (simp add: sql_group_count_keys)
  ultimately have "distinct (map fst ?S)"
    by (metis mset_eq_imp_distinct_iff)
  then have "distinct (take 5 (map fst ?S))" by (rule distinct_take)
  then show ?thesis by (simp add: sql_top5_rows take_map)
qed

lemma sort_by_count_descending:
  "sorted_wrt (\<lambda>x y. snd y \<le> snd x) (sort_key (\<lambda>(k, c). - c) (xs :: ('k \<times> int) list))"
proof -
  let ?S = "sort_key (\<lambda>(k, c). - c) xs"
  have "sorted (map (\<lambda>(k, c). - c) ?S)" by (rule sorted_sort_key)
  then have "sorted_wrt (\<lambda>x y. (case x of (k, c) \<Rightarrow> - c) \<le> (case y of (k, c) \<Rightarrow> - c)) ?S"
    by (simp only: sorted_map)
  then show ?thesis
    by (rule sorted_wrt_mono_rel [rotated]) (auto split: prod.splits)
qed

lemma sql_top5_descending: "sorted_wrt (\<ge>) (map snd (fst (snd (sql_top5 tie key d))))"
  using sorted_wrt_take [OF sort_by_count_descending, of 5
      "sort_key (\<lambda>(k, c). tie k) (sql_group_count key (books d))"]
  by (simp add: sql_top5_rows sorted_wrt_map)

lemma sql_top5_mem:
  assumes "(k, c) \<in> set (fst (snd (sql_top5 tie key d)))"
  shows "k \<in> key ` set (books d) \<and> c = int (length (filter (\<lambda>r. key r = k) (books d)))"
proof -
  from assms have "(k, c) \<in> set (sort_key (\<lambda>(k, c). - c)
      (sort_key (\<lambda>(k, c). tie k) (sql_group_count key (books d))))"
    unfolding sql_top5_rows by (rule in_set_takeD)
  then show ?thesis by (simp add: sql_group_count_mem group_size_def)
qed

lemma sql_top5_largest:
  assumes k: "k \<in> key ` set (books d)"
    and out: "k \<notin> fst ` set (fst (snd (sql_top5 tie key d)))"
    and c: "c \<in> snd ` set (fst (snd (sql_top5 tie key d)))"
  shows "int (length (filter (\<lambda>r. key r = k) (books d))) \<le> c"
proof -
  let ?S = "sort_key (\<lambda>(k, c). - c) (sort_key (\<lambda>(k, c). tie k) (sql_group_count key (books d)))"
  let ?x = "(k, group_size key k (books d))"
  have "sorted_wrt (\<lambda>x y. snd y \<le> snd x) (take 5 ?S @ drop 5 ?S)"
    using sort_by_count_descending [of "sort_key (\<lambda>(k, c). tie k) (sql_group_count key (books d))"]
    by simp
  then have sep: "\<forall>x \<in> set (take 5 ?S). \<forall>y \<in> set (drop 5 ?S). snd y \<le> snd x"
    by (simp only: sorted_wrt_append) blast
  have "?x \<in> set ?S" using k by (simp add: sql_group_count_mem)
  then have "?x \<in> set (take 5 ?S) \<union> set (drop 5 ?S)"
    by (metis append_take_drop_id set_append)
  moreover have "?x \<notin> set (take 5 ?S)"
    using out by (force simp add: sql_top5_rows)
  ultimately have x: "?x \<in> set (drop 5 ?S)" by blast
  from c obtain k' where "(k', c) \<in> set (take 5 ?S)"
    by (auto simp add: sql_top5_rows)
  with sep x have "group_size key k (books d) \<le> c" by fastforce
  then show ?thesis by (simp add: group_size_def)
qed

lemma sql_top5_dict: "py_dict (fst (snd (sql_top5 tie key d))) = fst (snd (sql_top5 tie key d))"
  by (rule py_dict_distinct) (rule sql_top5_distinct)

subsection \<open>Adding\<close>

text \<open>
  The round trip through the list. After any session, for every valid tuple of book fields
  (non-empty title, author and genre, a year in the range of SQLite's integers, a boolean
  read flag): \<^verbatim>\<open>add_book_to_db\<close> without a storage fault succeeds, and \<^verbatim>\<open>get_all_books\<close>
  then returns a record whose title, author, year, genre and read flag are the inputs. Its id
  is positive, is none of the ids assigned earlier in the session, belongs to no record
  listed before the call, and to no other record listed after it. A search for the exact
  title under \<^verbatim>\<open>Title\<close> returns the record as well when Python's \<^verbatim>\<open>lower()\<close> folds the
  title as SQLite does, that is, when it has no upper-case letter outside ASCII.
\<close>

theorem add_then_list_roundtrip:
  assumes "t \<noteq> []" "a \<noteq> []" "g \<noteq> []" "- (2 ^ 63) \<le> y" "y < 2 ^ 63"
    and d: "d = run ops empty_db"
    and add: "add_book_to_db False t a y g r d = (d', ok)"
  shows "ok \<and> (\<exists>b \<in> set (snd (get_all_books False d')).
            title b = t \<and> author b = a \<and> year b = y \<and> genre b = g \<and> read b = r
          \<and> 0 < book_id b
          \<and> book_id b \<notin> set (assigned_ids ops empty_db)
          \<and> book_id b \<notin> book_id ` set (snd (get_all_books False d))
          \<and> (\<forall>b' \<in> set (snd (get_all_books False d')). book_id b' = book_id b \<longrightarrow> b' = b)
          \<and> (py_lower t = sql_lower t \<longrightarrow> b \<in> set (snd (search_books False ''Title'' t d'))))"
proof -
  define i where "i = next_rowid d"
  define new :: row where "new = (i, t, a, y, g, if r then 1 else 0)"
  define b where "b = book_of_row new"
  have d': "books d' = books d @ [new]" and ok: "ok"
    using add by (auto simp add: add_book_to_db_ok new_def i_def)
  have fields: "row_id new = i" "row_title new = t"
    by (simp_all add: new_def row_id_def row_title_def)
  have listed: "set (snd (get_all_books False e)) = book_of_row ` set (books e)" for e
    by (simp add: get_all_books_rows)
  have old: "row_id r' < i" if "r' \<in> set (books d)" for r'
    using next_rowid_above_rows [OF that] by (simp add: i_def)
  have b_in: "b \<in> set (snd (get_all_books False d'))"
    by (simp add: listed d' b_def)
  have b_fields: "title b = t \<and> author b = a \<and> year b = y \<and> genre b = g \<and> read b = r"
    by (simp add: b_def new_def book_of_row_def)
  have b_id: "book_id b = i"
    by (simp add: b_def new_def book_of_row_def)
  have "0 \<le> seq d" unfolding d by (rule seq_session_nonneg)
  then have pos: "0 < i"
    using next_rowid_above_seq [of d] by (simp add: i_def)
  have fresh: "i \<notin> set (assigned_ids ops empty_db)"
  proof
    assume "i \<in> set (assigned_ids ops empty_db)"
    then have "i \<le> seq d" unfolding d by (simp add: assigned_ids_bounds)
    with next_rowid_above_seq [of d] show False by (simp add: i_def)
  qed
  have unlisted: "i \<notin> book_id ` set (snd (get_all_books False d))"
  proof
    assume "i \<in> book_id ` set (snd (get_all_books False d))"
    then obtain r' where "r' \<in> set (books d)" "row_id r' = i"
      by (auto simp add: listed book_of_row_fields)
    with old show False by fastforce
  qed
  have unique: "\<forall>b' \<in> set (snd (get_all_books False d')). book_id b' = i \<longrightarrow> b' = b"
  proof (intro ballI impI)
    fix b' assume "b' \<in> set (snd (get_all_books False d'))" and id: "book_id b' = i"
    then obtain r' where r': "r' \<in> set (books d')" "b' = book_of_row r'"
      by (auto simp add: listed)
    with id have "row_id r' = i" by (simp add: book_of_row_fields)
    with r' old have "r' = new" by (fastforce simp add: d')
    with r' show "b' = b" by (simp add: b_def)
  qed
  have found: "b \<in> set (snd (search_books False ''Title'' t d'))" if "py_lower t = sql_lower t"
  proof -
    have "sql_like (CHR ''%'' # py_lower t @ ''%'') (sql_lower (row_title new))"
      using sql_like_exact [of "sql_lower t"] by (simp add: that fields)
    then show ?thesis
      by (simp add: search_books_rows d' b_def)
  qed
  have "title b = t \<and> author b = a \<and> year b = y \<and> genre b = g \<and> read b = r
          \<and> 0 < book_id b
          \<and> book_id b \<notin> set (assigned_ids ops empty_db)
          \<and> book_id b \<notin> book_id ` set (snd (get_all_books False d))
          \<and> (\<forall>b' \<in> set (snd (get_all_books False d')). book_id b' = book_id b \<longrightarrow> b' = b)
          \<and> (py_lower t = sql_lower t \<longrightarrow> b \<in> set (snd (search_books False ''Title'' t d')))"
    using b_fields pos fresh unlisted unique found by (simp add: b_id)
  then show ?thesis
    by (rule conjI [OF ok bexI [OF _ b_in]])
qed

theorem add_then_list_roundtrip_witness:
  "\<exists>b \<in> set (snd (get_all_books False
           (fst (add_book_to_db False ''Dune'' ''Frank Herbert'' 1965 ''SF'' True
              (run [Add False ''Emma'' ''Jane Austen'' 1815 ''Novel'' False, Delete False 1] empty_db))))).
      title b = ''Dune'' \<and> author b = ''Frank Herbert'' \<and> year b = 1965 \<and> genre b = ''SF'' \<and> read b
    \<and> 0 < book_id b
    \<and> book_id b \<notin> set (assigned_ids [Add False ''Emma'' ''Jane Austen'' 1815 ''Novel'' False, Delete False 1] empty_db)
    \<and> b \<in> set (snd (search_books False ''Title'' ''Dune''
           (fst (add_book_to_db False ''Dune'' ''Frank Herbert'' 1965 ''SF'' True
              (run [Add False ''Emma'' ''Jane Austen'' 1815 ''Novel'' False, Delete False 1] empty_db)))))"
proof -
  have low: "py_lower ''Dune'' = sql_lower ''Dune''"
    by code_simp
  have "''Dune'' \<noteq> []" "''Frank Herbert'' \<noteq> []" "''SF'' \<noteq> []"
    "- (2 ^ 63) \<le> (1965 :: int)" "(1965 :: int) < 2 ^ 63"
    by simp_all
  from add_then_list_roundtrip [where ops = "[Add False ''Emma'' ''Jane Austen'' 1815 ''Novel'' False, Delete False 1]"
      and r = True, OF this refl surjective_pairing] low
  show ?thesis by fast
qed

text \<open>
  C1. Adding a book and then searching for its exact title must return the record that was
  added. The code misses this for a title with an upper-case letter outside ASCII:
  \<^verbatim>\<open>search_books\<close> lowers the search string with Python's \<^verbatim>\<open>lower()\<close>, which turns
  U+00C9 into U+00E9, and compares it with \<^verbatim>\<open>LOWER(title)\<close>, which leaves U+00C9 as it is.
  The book is listed after it was added, and the search for its title returns nothing.
\<close>

theorem add_then_search_exact_title_fails:
  "map title (snd (get_all_books False
      (fst (add_book_to_db False [CHR 0xC9, CHR ''c'', CHR ''o'', CHR ''l'', CHR ''e''] ''Anon'' 2010 ''Essay'' False empty_db))))
     = [[CHR 0xC9, CHR ''c'', CHR ''o'', CHR ''l'', CHR ''e'']]
   \<and> snd (search_books False ''Title'' [CHR 0xC9, CHR ''c'', CHR ''o'', CHR ''l'', CHR ''e'']
      (fst (add_book_to_db False [CHR 0xC9, CHR ''c'', CHR ''o'', CHR ''l'', CHR ''e''] ''Anon'' 2010 ''Essay'' False empty_db)))
     = []"
  by code_simp

text \<open>
  C3, as amended. Without a storage fault \<^verbatim>\<open>add_book_to_db\<close> returns the flag
  \<^verbatim>\<open>True\<close>, the value of \<^verbatim>\<open>book_id is not None\<close>. The id of the inserted row is what
  \<^verbatim>\<open>execute_query\<close> hands back as \<^verbatim>\<open>lastrowid\<close>; it is stored in the new row, the last
  of the table, and is not returned to the caller.
\<close>

theorem add_book_to_db_returns_flag:
  "snd (add_book_to_db False t a y g r d) = True
   \<and> snd (execute_query False (sql_insert t a y g r) False d) = Some (LastRowId (next_rowid d))
   \<and> last (books (fst (add_book_to_db False t a y g r d))) = (next_rowid d, t, a, y, g, if r then 1 else 0)"
  by (simp add: add_book_to_db_ok execute_query_commit sql_insert_def Let_def)

text \<open>
  C3 as stated fails: two successive additions return the same value although the rows they
  insert get the ids 1 and 2, so the returned value is not the id.
\<close>

theorem add_book_to_db_id_counterexample:
  "snd (add_book_to_db False ''Emma'' ''Jane Austen'' 1815 ''Novel'' False empty_db)
     = snd (add_book_to_db False ''Dune'' ''Frank Herbert'' 1965 ''SF'' True
             (fst (add_book_to_db False ''Emma'' ''Jane Austen'' 1815 ''Novel'' False empty_db)))
   \<and> map book_id (snd (get_all_books False
        (run [Add False ''Emma'' ''Jane Austen'' 1815 ''Novel'' False,
              Add False ''Dune'' ''Frank Herbert'' 1965 ''SF'' True] empty_db))) = [2, 1]"
  by code_simp

subsection \<open>Deleting\<close>

text \<open>
  C2. Without a storage fault, \<^verbatim>\<open>delete_book\<close> reports success for every id. It removes
  exactly the rows with that id; when no row has the id, nothing is removed and the stored
  state is unchanged, and the call still reports success.
\<close>

theorem delete_book_reports_success:
  "snd (delete_book False i d) = True
   \<and> books (fst (delete_book False i d)) = filter (\<lambda>r. row_id r \<noteq> i) (books d)
   \<and> (i \<notin> row_id ` set (books d) \<longrightarrow> fst (delete_book False i d) = d)"
proof -
  have "i \<notin> row_id ` set (books d) \<Longrightarrow> filter (\<lambda>r. row_id r \<noteq> i) (books d) = books d"
    by (rule filter_True) auto
  then show ?thesis
    by (simp add: delete_book_def execute_query_def sql_delete_def)
qed

theorem delete_book_reports_success_witness:
  "snd (delete_book False 7 empty_db) = True \<and> fst (delete_book False 7 empty_db) = empty_db"
  using delete_book_reports_success [of 7 empty_db] by (simp add: empty_db_def)

subsection \<open>Searching\<close>

text \<open>
  Searching by containment. For every stored table and every search string that contains no
  percent sign, no underscore and no NUL character and that Python's \<^verbatim>\<open>lower()\<close> folds as
  SQLite does (no upper-case letter outside ASCII), \<^verbatim>\<open>search_books\<close> without a storage
  fault returns exactly the rows whose chosen field (the title for the search type
  \<^verbatim>\<open>Title\<close>, the author otherwise), read up to its first NUL character if it has one,
  contains the search string up to the case of ASCII letters: a match anywhere in the field,
  not only at its start. Each such row is returned once, in ascending order of that field;
  when no row matches, the result is empty.
\<close>

theorem search_books_contains:
  assumes "CHR ''%'' \<notin> set q" "CHR ''_'' \<notin> set q" "CHR 0x00 \<notin> set q"
    and "py_lower q = sql_lower q"
  shows "let col = (if ty = ''Title'' then row_title else row_author);
             matches = filter (\<lambda>r. sublist (sql_lower q) (sql_lower (c_str (col r)))) (books d);
             found = snd (search_books False ty q d)
         in mset found = mset (map book_of_row matches)
            \<and> sorted (map (if ty = ''Title'' then title else author) found)
            \<and> (matches = [] \<longrightarrow> found = [])"
proof -
  define col where "col = (if ty = ''Title'' then row_title else row_author)"
  define matches where
    "matches = filter (\<lambda>r. sublist (sql_lower q) (sql_lower (c_str (col r)))) (books d)"
  have found: "snd (search_books False ty q d) = map book_of_row (sort_key col matches)"
    by (simp add: search_books_rows search_books_matches [OF assms] col_def matches_def)
  have fields: "map (if ty = ''Title'' then title else author) (map book_of_row rs) = map col rs" for rs
    by (simp add: col_def book_of_row_fields)
  have "mset (map book_of_row (sort_key col matches)) = mset (map book_of_row matches)"
    by simp
  moreover have "sorted (map col (sort_key col matches))"
    by (rule sorted_sort_key)
  moreover have "matches = [] \<longrightarrow> map book_of_row (sort_key col matches) = []"
    by simp
  ultimately show ?thesis
    unfolding Let_def found fields col_def [symmetric] matches_def [symmetric] by blast
qed

theorem search_books_contains_witness:
  "snd (search_books False ''Title'' ''GATSBY''
          (run [Add False ''The Great Gatsby'' ''F. Scott Fitzgerald'' 1925 ''Novel'' True,
                Add False ''Dune'' ''Frank Herbert'' 1965 ''SF'' False] empty_db))
     = [\<lparr>book_id = 1, title = ''The Great Gatsby'', author = ''F. Scott Fitzgerald'',
          year = 1925, genre = ''Novel'', read = True\<rparr>]
   \<and> snd (search_books False ''Title'' ''zzz''
          (run [Add False ''The Great Gatsby'' ''F. Scott Fitzgerald'' 1925 ''Novel'' True,
                Add False ''Dune'' ''Frank Herbert'' 1965 ''SF'' False] empty_db)) = []"
proof -
  let ?d = "run [Add False ''The Great Gatsby'' ''F. Scott Fitzgerald'' 1925 ''Novel'' True,
                Add False ''Dune'' ''Frank Herbert'' 1965 ''SF'' False] empty_db"
  have d: "books ?d = [(1, ''The Great Gatsby'', ''F. Scott Fitzgerald'', 1925, ''Novel'', 1),
                       (2, ''Dune'', ''Frank Herbert'', 1965, ''SF'', 0)]"
    by code_simp
  have q1: "CHR ''%'' \<notin> set ''GATSBY''" "CHR ''_'' \<notin> set ''GATSBY''" "CHR 0x00 \<notin> set ''GATSBY''"
    "py_lower ''GATSBY'' = sql_lower ''GATSBY''"
    by code_simp+
  have q2: "CHR ''%'' \<notin> set ''zzz''" "CHR ''_'' \<notin> set ''zzz''" "CHR 0x00 \<notin> set ''zzz''"
    "py_lower ''zzz'' = sql_lower ''zzz''"
    by code_simp+
  have m1: "filter (\<lambda>r. sublist (sql_lower ''GATSBY'') (sql_lower (c_str (row_title r)))) (books ?d)
             = [(1, ''The Great Gatsby'', ''F. Scott Fitzgerald'', 1925, ''Novel'', 1)]"
    unfolding d by code_simp
  have m2: "filter (\<lambda>r. sublist (sql_lower ''zzz'') (sql_lower (c_str (row_title r)))) (books ?d) = []"
    unfolding d by code_simp
  have b: "book_of_row (1, ''The Great Gatsby'', ''F. Scott Fitzgerald'', 1925, ''Novel'', 1)
            = \<lparr>book_id = 1, title = ''The Great Gatsby'', author = ''F. Scott Fitzgerald'',
          year = 1925, genre = ''Novel'', read = True\<rparr>"
    by (simp add: book_of_row_def)
  from search_books_contains [OF q1, of "''Title''" ?d]
  have "mset (snd (search_books False ''Title'' ''GATSBY'' ?d))
         = mset [\<lparr>book_id = 1, title = ''The Great Gatsby'', author = ''F. Scott Fitzgerald'',
          year = 1925, genre = ''Novel'', read = True\<rparr>]"
    unfolding Let_def by (simp add: m1 b)
  then have "snd (search_books False ''Title'' ''GATSBY'' ?d) = [\<lparr>book_id = 1, title = ''The Great Gatsby'', author = ''F. Scott Fitzgerald'',
          year = 1925, genre = ''Novel'', read = True\<rparr>]"
    by (simp add: mset_single_iff_right del: One_nat_def)
  moreover from search_books_contains [OF q2, of "''Title''" ?d]
  have "snd (search_books False ''Title'' ''zzz'' ?d) = []"
    unfolding Let_def by (simp add: m2)
  ultimately show ?thesis by simp
qed



text \<open>
  C4. A search must return the rows whose field contains the search string, whatever the
  case of the letters. The code misses this for a search string with an upper-case letter
  outside ASCII: \<^verbatim>\<open>search_query.lower()\<close> turns U+00C9 into U+00E9, \<^verbatim>\<open>LOWER(title)\<close>
  leaves the stored U+00C9 as it is, and \<^verbatim>\<open>LIKE\<close> does not identify the two. The stored
  title contains the search string, even letter for letter, and the search finds nothing.
\<close>

theorem search_books_non_ascii_capital_fails:
  "map title (snd (get_all_books False
          (fst (add_book_to_db False [CHR 0xC9] ''Zola'' 2001 ''Novel'' True empty_db)))) = [[CHR 0xC9]]
   \<and> sublist [CHR 0xC9] [CHR 0xC9]
   \<and> snd (search_books False ''Title'' [CHR 0xC9]
          (fst (add_book_to_db False [CHR 0xC9] ''Zola'' 2001 ''Novel'' True empty_db))) = []"
  by code_simp


text \<open>
  C9. Some search strings with an underscore or a percent sign return rows whose field does
  not contain the search string: the string goes unescaped into the LIKE pattern, so
  \<^verbatim>\<open>a_c\<close> finds the title \<^verbatim>\<open>abc\<close>, and \<^verbatim>\<open>A%n\<close> finds the author \<^verbatim>\<open>Anderson\<close>.
\<close>

theorem search_books_wildcards:
  "map title (snd (search_books False ''Title'' ''a_c''
      (fst (add_book_to_db False ''abc'' ''Ann'' 2001 ''Novel'' True empty_db)))) = [''abc'']
   \<and> \<not> sublist ''a_c'' ''abc''
   \<and> map author (snd (search_books False ''Author'' ''A%n''
      (fst (add_book_to_db False ''abc'' ''Anderson'' 2001 ''Novel'' True empty_db)))) = [''Anderson'']
   \<and> \<not> sublist (sql_lower ''A%n'') (sql_lower ''Anderson'')"
  by code_simp

subsection \<open>Statistics\<close>

text \<open>
  C5, as amended. \<^verbatim>\<open>get_statistics\<close> never raises. On an empty table it reports 0 books,
  0 read books and the percentage 0. Without a fault in the two counting queries the totals
  are the number of rows and the number of rows whose read flag is 1. The percentage is 0
  when the reported total is 0. When the total is positive, the percentage is the float
  \<^verbatim>\<open>(read_books / total_books) * 100\<close>: the quotient rounded to a double, times 100,
  rounded again. It differs from 100 times the read count divided by the total by no more
  than that value divided by \<open>2\<^sup>5\<^sup>1\<close>.
\<close>

theorem statistics_percentage:
  "\<exists>s. snd (get_statistics f1 f2 f3 f4 f5 tg ta d) = Inr s
     \<and> (books d = [] \<longrightarrow> total_books s = 0 \<and> read_books s = 0 \<and> read_percentage s = 0)
     \<and> (\<not> f1 \<longrightarrow> total_books s = int (length (books d)))
     \<and> (\<not> f2 \<longrightarrow> read_books s = int (length (filter (\<lambda>r. row_read r = 1) (books d))))
     \<and> (total_books s = 0 \<longrightarrow> read_percentage s = 0)
     \<and> (0 < total_books s \<longrightarrow>
          read_percentage s
            = py_float_mul (to_double (of_int (read_books s) / of_int (total_books s))) 100
          \<and> \<bar>read_percentage s - 100 * of_int (read_books s) / of_int (total_books s)\<bar>
              \<le> 100 * of_int (read_books s) / of_int (total_books s) / 2 ^ 51)"
proof -
  define n where "n = (if f2 then 0 else int (length (filter (\<lambda>r. row_read r = 1) (books d))))"
  define m where "m = int (length (books d))"
  have "0 \<le> (of_int n :: rat) / of_int m"
    by (simp add: n_def m_def)
  from percentage_error [OF this]
  have "\<bar>py_float_mul (to_double (of_int n / of_int m)) 100 - 100 * of_int n / of_int m\<bar>
          \<le> 100 * of_int n / of_int m / 2 ^ 51"
    by simp
  then show ?thesis
    unfolding n_def m_def by (simp add: get_statistics_value)
qed

theorem statistics_percentage_witness:
  "\<exists>s. snd (get_statistics False False False False False (\<lambda>k. 0) (\<lambda>k. 0) empty_db) = Inr s
       \<and> total_books s = 0 \<and> read_books s = 0 \<and> read_percentage s = 0"
  using statistics_percentage [of False False False False False "\<lambda>k. 0" "\<lambda>k. 0" empty_db]
  by (auto simp add: empty_db_def)

text \<open>
  C5 as stated fails in its general part: with 1 book read of 3 the code returns the double
  33.33333333333333, which is neither the exact value of 100 * 1 / 3 nor the double
  33.333333333333336 that Python computes for \<^verbatim>\<open>100 * 1 / 3\<close>.
\<close>

theorem statistics_percentage_counterexample:
  "map_sum id (\<lambda>s. (total_books s, read_books s, read_percentage s))
     (snd (get_statistics False False False False False (\<lambda>k. 0) (\<lambda>k. 0)
        (run [Add False ''Emma'' ''Jane Austen'' 1815 ''Novel'' True,
              Add False ''Dune'' ''Frank Herbert'' 1965 ''SF'' False,
              Add False ''Ulysses'' ''James Joyce'' 1922 ''Novel'' False] empty_db)))
     = Inr (3, 1, 2345624805922133 / 70368744177664)
   \<and> (2345624805922133 / 70368744177664 :: rat) \<noteq> 100 * 1 / 3
   \<and> (2345624805922133 / 70368744177664 :: rat) \<noteq> to_double (100 * 1 / 3)"
  by code_simp

text \<open>
  C6, as amended. Without a fault in the decade query, the decade entry of the report lists
  every decade present in the table, once each and in ascending order of the decade, under
  the label made of the decade's numeral and the letter s, with the exact number of books in
  it and with no limit on the number of decades. The decade of a year is the year divided by
  10 with the quotient truncated towards zero, times 10: for a year from 0 on that is
  10 times the floor of a tenth of the year, for a negative year it is the negation of the
  decade of the negated year.
\<close>

theorem decades_buckets:
  "\<exists>s ks. snd (get_statistics f1 f2 f3 f4 False tg ta d) = Inr s
     \<and> decades s = map (\<lambda>k. (py_str k @ ''s'', group_size sql_decade k (books d))) ks
     \<and> sorted ks \<and> distinct ks \<and> set ks = sql_decade ` set (books d)
     \<and> distinct (map fst (decades s))
     \<and> (\<forall>r. sql_decade r =
             (if 0 \<le> row_year r then row_year r div 10 * 10 else - ((- row_year r) div 10 * 10)))"
proof -
  let ?ks = "sort (remdups (map sql_decade (books d)))"
  let ?s = "\<lparr>total_books = (if f1 then 0 else int (length (books d))),
              read_books = (if f2 then 0 else int (length (filter (\<lambda>r. row_read r = 1) (books d)))),
              read_percentage =
                (if f1 \<or> books d = [] then 0
                 else py_float_mul
                        (to_double
                          (of_int (if f2 then 0 else int (length (filter (\<lambda>r. row_read r = 1) (books d))))
                           / of_int (int (length (books d)))))
                        100),
              genres = (if f3 then [] else py_dict (fst (snd (sql_top5 tg row_genre d)))),
              authors = (if f4 then [] else py_dict (fst (snd (sql_top5 ta row_author d)))),
              decades = map (\<lambda>k. (py_str k @ ''s'', group_size sql_decade k (books d))) ?ks\<rparr>"
  have s: "snd (get_statistics f1 f2 f3 f4 False tg ta d) = Inr ?s"
    by (simp add: get_statistics_value decades_dict)
  have "distinct (map (\<lambda>k. py_str k @ ''s'') ?ks)"
    by (simp add: decade_labels_distinct)
  then have "distinct (map fst (decades ?s))"
    by (simp add: comp_def)
  with s sql_decade_floor show ?thesis
    by (intro exI [of _ ?s] exI [of _ ?ks]) simp
qed

theorem decades_buckets_witness:
  "\<exists>s. snd (get_statistics False False False False False (\<lambda>k. 0) (\<lambda>k. 0)
             (run [Add False ''t1'' ''Ann'' 1995 ''Crime'' True,
                   Add False ''t2'' ''Ann'' 1999 ''Crime'' False,
                   Add False ''t3'' ''Bob'' 2001 ''Essay'' True,
                   Add False ''t4'' ''Cy'' 2005 ''Fable'' True] empty_db)) = Inr s
       \<and> decades s = [(''1990s'', 2), (''2000s'', 2)]"
proof -
  let ?d = "run [Add False ''t1'' ''Ann'' 1995 ''Crime'' True,
                   Add False ''t2'' ''Ann'' 1999 ''Crime'' False,
                   Add False ''t3'' ''Bob'' 2001 ''Essay'' True,
                   Add False ''t4'' ''Cy'' 2005 ''Fable'' True] empty_db"
  from decades_buckets [of False False False False "\<lambda>k. 0" "\<lambda>k. 0" ?d]
  obtain s ks where s: "snd (get_statistics False False False False False (\<lambda>k. 0) (\<lambda>k. 0) ?d) = Inr s"
    and dec: "decades s = map (\<lambda>k. (py_str k @ ''s'', group_size sql_decade k (books ?d))) ks"
    and ks: "sorted ks" "distinct ks" "set ks = sql_decade ` set (books ?d)"
    by blast
  have "sql_decade ` set (books ?d) = set [1990, 2000]"
    by code_simp
  with ks have "ks = [1990, 2000]"
    by (intro sorted_distinct_set_unique) simp_all
  moreover have "map (\<lambda>k. (py_str k @ ''s'', group_size sql_decade k (books ?d))) [1990, 2000]
      = [(''1990s'', 2), (''2000s'', 2)]"
    by code_simp
  ultimately show ?thesis using s dec by simp
qed

text \<open>
  C6 as stated fails for negative years: SQLite truncates \<^verbatim>\<open>-5 / 10\<close> to 0, so the years
  -5 and 5 share the bucket 0, while the floor of -5 / 10 times 10 is -10.
\<close>

theorem decades_floor_counterexample:
  "map_sum id decades (snd (get_statistics False False False False False (\<lambda>k. 0) (\<lambda>k. 0)
      (run [Add False ''Odes'' ''Horace'' (- 5) ''Poetry'' True,
            Add False ''Fasti'' ''Ovid'' 5 ''Poetry'' False] empty_db)))
     = Inr [(''0s'', 2)]
   \<and> (- 5 :: int) div 10 * 10 = - 10
   \<and> (5 :: int) div 10 * 10 = 0"
  by code_simp

text \<open>
  C7. Without a fault in the genre query, and whatever order the engine gives to genres of
  equal count, the genre entry of the report has at most 5 entries (5, or all genres when
  there are fewer), each a different genre of the table with its exact number of books, in
  descending order of that number; every genre left out has at most as many books as every
  genre listed. The same holds for the author entry.
\<close>

theorem top_genres_and_authors:
  "\<exists>s. snd (get_statistics f1 f2 False False f5 tg ta d) = Inr s
     \<and> length (genres s) \<le> 5
     \<and> length (genres s) = min 5 (card (row_genre ` set (books d)))
     \<and> distinct (map fst (genres s))
     \<and> sorted_wrt (\<ge>) (map snd (genres s))
     \<and> (\<forall>(g, c) \<in> set (genres s).
            g \<in> row_genre ` set (books d)
            \<and> c = int (length (filter (\<lambda>r. row_genre r = g) (books d))))
     \<and> (\<forall>g \<in> row_genre ` set (books d). g \<notin> fst ` set (genres s) \<longrightarrow>
            (\<forall>c \<in> snd ` set (genres s). int (length (filter (\<lambda>r. row_genre r = g) (books d))) \<le> c))
     \<and> length (authors s) \<le> 5
     \<and> length (authors s) = min 5 (card (row_author ` set (books d)))
     \<and> distinct (map fst (authors s))
     \<and> sorted_wrt (\<ge>) (map snd (authors s))
     \<and> (\<forall>(a, c) \<in> set (authors s).
            a \<in> row_author ` set (books d)
            \<and> c = int (length (filter (\<lambda>r. row_author r = a) (books d))))
     \<and> (\<forall>a \<in> row_author ` set (books d). a \<notin> fst ` set (authors s) \<longrightarrow>
            (\<forall>c \<in> snd ` set (authors s). int (length (filter (\<lambda>r. row_author r = a) (books d))) \<le> c))"
proof -
  have top: "length (fst (snd (sql_top5 tie key d))) \<le> 5
     \<and> length (fst (snd (sql_top5 tie key d))) = min 5 (card (key ` set (books d)))
     \<and> distinct (map fst (fst (snd (sql_top5 tie key d))))
     \<and> sorted_wrt (\<ge>) (map snd (fst (snd (sql_top5 tie key d))))
     \<and> (\<forall>(k, c) \<in> set (fst (snd (sql_top5 tie key d))).
            k \<in> key ` set (books d) \<and> c = int (length (filter (\<lambda>r. key r = k) (books d))))
     \<and> (\<forall>k \<in> key ` set (books d). k \<notin> fst ` set (fst (snd (sql_top5 tie key d))) \<longrightarrow>
            (\<forall>c \<in> snd ` set (fst (snd (sql_top5 tie key d))).
                int (length (filter (\<lambda>r. key r = k) (books d))) \<le> c))"
    for tie key
  proof -
    have "length (fst (snd (sql_top5 tie key d))) \<le> 5"
      by (simp add: sql_top5_length)
    moreover have "\<forall>(k, c) \<in> set (fst (snd (sql_top5 tie key d))).
            k \<in> key ` set (books d) \<and> c = int (length (filter (\<lambda>r. key r = k) (books d)))"
      using sql_top5_mem [of _ _ tie key d] by blast
    moreover have "\<forall>k \<in> key ` set (books d). k \<notin> fst ` set (fst (snd (sql_top5 tie key d))) \<longrightarrow>
            (\<forall>c \<in> snd ` set (fst (snd (sql_top5 tie key d))).
                int (length (filter (\<lambda>r. key r = k) (books d))) \<le> c)"
      using sql_top5_largest [of _ key d tie] by blast
    ultimately show ?thesis
      using sql_top5_length [of tie key d] sql_top5_distinct [of tie key d]
        sql_top5_descending [of tie key d]
      by blast
  qed
  show ?thesis
    using top [of tg row_genre] top [of ta row_author]
    by (simp add: get_statistics_value sql_top5_dict)
qed

text \<open>
  Seven genres with 7, 6, 5, 4, 3, 2 and 1 books, by three authors with 18, 7 and 3 books: no
  two counts are equal, so the report does not depend on the engine's order.
\<close>

theorem top_genres_and_authors_witness:
  "\<exists>s. snd (get_statistics False False False False False (\<lambda>k. 0) (\<lambda>k. 0)
             (run (replicate 7 (Add False ''t'' ''Ann'' 2001 ''Crime'' True)
                   @ replicate 6 (Add False ''t'' ''Ann'' 2002 ''Essay'' False)
                   @ replicate 5 (Add False ''t'' ''Ann'' 2003 ''Fable'' True)
                   @ replicate 4 (Add False ''t'' ''Bob'' 2004 ''Gothic'' True)
                   @ replicate 3 (Add False ''t'' ''Bob'' 2005 ''Horror'' False)
                   @ replicate 2 (Add False ''t'' ''Cy'' 2006 ''Idyll'' True)
                   @ replicate 1 (Add False ''t'' ''Cy'' 2007 ''Jest'' True)) empty_db)) = Inr s
       \<and> genres s = [(''Crime'', 7), (''Essay'', 6), (''Fable'', 5), (''Gothic'', 4), (''Horror'', 3)]
       \<and> authors s = [(''Ann'', 18), (''Bob'', 7), (''Cy'', 3)]
       \<and> length (genres s) \<le> 5
       \<and> sorted_wrt (\<ge>) (map snd (genres s))"
proof -
  let ?d = "run (replicate 7 (Add False ''t'' ''Ann'' 2001 ''Crime'' True)
                   @ replicate 6 (Add False ''t'' ''Ann'' 2002 ''Essay'' False)
                   @ replicate 5 (Add False ''t'' ''Ann'' 2003 ''Fable'' True)
                   @ replicate 4 (Add False ''t'' ''Bob'' 2004 ''Gothic'' True)
                   @ replicate 3 (Add False ''t'' ''Bob'' 2005 ''Horror'' False)
                   @ replicate 2 (Add False ''t'' ''Cy'' 2006 ''Idyll'' True)
                   @ replicate 1 (Add False ''t'' ''Cy'' 2007 ''Jest'' True)) empty_db"
  have g: "map_sum id genres (snd (get_statistics False False False False False (\<lambda>k. 0) (\<lambda>k. 0) ?d))
      = Inr [(''Crime'', 7), (''Essay'', 6), (''Fable'', 5), (''Gothic'', 4), (''Horror'', 3)]"
    by code_simp
  have a: "map_sum id authors (snd (get_statistics False False False False False (\<lambda>k. 0) (\<lambda>k. 0) ?d))
      = Inr [(''Ann'', 18), (''Bob'', 7), (''Cy'', 3)]"
    by code_simp
  from top_genres_and_authors [of False False False "\<lambda>k. 0" "\<lambda>k. 0" ?d]
  obtain s where s: "snd (get_statistics False False False False False (\<lambda>k. 0) (\<lambda>k. 0) ?d) = Inr s"
    and "length (genres s) \<le> 5"
    and "sorted_wrt (\<ge>) (map snd (genres s))"
    by blast
  moreover from g a s have "genres s = [(''Crime'', 7), (''Essay'', 6), (''Fable'', 5), (''Gothic'', 4), (''Horror'', 3)]"
    and "authors s = [(''Ann'', 18), (''Bob'', 7), (''Cy'', 3)]"
    by simp_all
  ultimately show ?thesis
    by (intro exI [of _ s]) simp
qed

subsection \<open>Faults and reads\<close>

text \<open>
  C8. A storage fault in a store operation is caught inside \<^verbatim>\<open>execute_query\<close> and the
  operation returns a default instead of raising: \<^verbatim>\<open>False\<close> for adding and deleting, the
  empty list for listing and searching, and for the statistics, which never raise, zero
  counts and empty dictionaries; when only some of the five statistics queries fail, each
  failed query leaves its own part of the report at the default.
\<close>

theorem faults_give_defaults:
  "snd (add_book_to_db True t a y g r d) = False
   \<and> snd (get_all_books True d) = []
   \<and> snd (search_books True ty q d) = []
   \<and> snd (delete_book True i d) = False
   \<and> snd (get_statistics True True True True True tg ta d)
       = Inr \<lparr>total_books = 0, read_books = 0, read_percentage = 0,
              genres = [], authors = [], decades = []\<rparr>
   \<and> (\<exists>s. snd (get_statistics f1 f2 f3 f4 f5 tg ta d) = Inr s
          \<and> (f1 \<longrightarrow> total_books s = 0 \<and> read_percentage s = 0)
          \<and> (f2 \<longrightarrow> read_books s = 0 \<and> read_percentage s = 0)
          \<and> (f3 \<longrightarrow> genres s = [])
          \<and> (f4 \<longrightarrow> authors s = [])
          \<and> (f5 \<longrightarrow> decades s = []))"
proof -
  have "snd (get_all_books True d) = []"
    by (simp add: get_all_books_def execute_query_def)
  moreover have "snd (search_books True ty q d) = []"
    by (simp add: search_books_def execute_query_def Let_def)
  moreover have "snd (get_statistics True True True True True tg ta d)
       = Inr \<lparr>total_books = 0, read_books = 0, read_percentage = 0,
              genres = [], authors = [], decades = []\<rparr>"
    by (simp add: get_statistics_value to_double_zero py_float_mul_zero)
  moreover have "\<exists>s. snd (get_statistics f1 f2 f3 f4 f5 tg ta d) = Inr s
          \<and> (f1 \<longrightarrow> total_books s = 0 \<and> read_percentage s = 0)
          \<and> (f2 \<longrightarrow> read_books s = 0 \<and> read_percentage s = 0)
          \<and> (f3 \<longrightarrow> genres s = [])
          \<and> (f4 \<longrightarrow> authors s = [])
          \<and> (f5 \<longrightarrow> decades s = [])"
    by (simp add: get_statistics_value to_double_zero py_float_mul_zero)
  ultimately show ?thesis
    by (simp add: add_book_to_db_fault delete_book_fault)
qed

theorem faults_give_defaults_witness:
  "\<exists>s. snd (get_statistics True False True False True (\<lambda>k. 0) (\<lambda>k. 0)
             (run [Add False ''Emma'' ''Jane Austen'' 1815 ''Novel'' True] empty_db)) = Inr s
       \<and> total_books s = 0 \<and> read_percentage s = 0 \<and> genres s = [] \<and> decades s = []"
  using faults_give_defaults [where d = "run [Add False ''Emma'' ''Jane Austen'' 1815 ''Novel'' True] empty_db"
      and ?f1.0 = True and ?f2.0 = False and ?f3.0 = True and ?f4.0 = False and ?f5.0 = True
      and tg = "\<lambda>k. 0" and ta = "\<lambda>k. 0"]
  by auto

text \<open>
  C10. Listing, searching and the statistics leave the stored table as it was, with or
  without a storage fault: their queries run on the fetch path of \<^verbatim>\<open>execute_query\<close>,
  which never commits.
\<close>

theorem reads_leave_table_unchanged:
  "fst (get_all_books f d) = d
   \<and> fst (search_books f ty q d) = d
   \<and> fst (get_statistics f1 f2 f3 f4 f5 tg ta d) = d"
  by (simp add: get_all_books_state search_books_state get_statistics_state)

end
